theory Spec2Isabelle
  imports Main
begin

section \<open>Lisp objects and Lisp errors\<close>

text \<open>
  The part of \<^verbatim>\<open>src/json.c\<close> modelled here is the JSON-RPC transport
  (\<^verbatim>\<open>json-rpc-connection\<close>, \<^verbatim>\<open>json-rpc-send\<close>, \<^verbatim>\<open>json-rpc-shutdown\<close>,
  \<^verbatim>\<open>json-rpc\<close>) and the keyword-argument parser \<^verbatim>\<open>json_parse_args\<close> they share
  with the other JSON entry points.

  A \<^verbatim>\<open>Lisp_Object\<close> is a symbol (interned, so two symbols are \<^verbatim>\<open>EQ\<close> exactly when
  their names are equal), a fixnum, a string or a cons cell.  The source only ever
  applies \<^verbatim>\<open>EQ\<close> with a symbol on one side, where it coincides with equality of the
  model's values.
\<close>

datatype Lisp_Object =
    Symbol string
  | Fixnum int
  | String string
  | Cons Lisp_Object Lisp_Object

abbreviation Qnil :: Lisp_Object where "Qnil \<equiv> Symbol ''nil''"
abbreviation Qt :: Lisp_Object where "Qt \<equiv> Symbol ''t''"
abbreviation Qplistp :: Lisp_Object where "Qplistp \<equiv> Symbol ''plistp''"
abbreviation Qhash_table :: Lisp_Object where "Qhash_table \<equiv> Symbol ''hash-table''"
abbreviation Qalist :: Lisp_Object where "Qalist \<equiv> Symbol ''alist''"
abbreviation Qplist :: Lisp_Object where "Qplist \<equiv> Symbol ''plist''"
abbreviation Qarray :: Lisp_Object where "Qarray \<equiv> Symbol ''array''"
abbreviation Qlist :: Lisp_Object where "Qlist \<equiv> Symbol ''list''"
abbreviation QCobject_type :: Lisp_Object where "QCobject_type \<equiv> Symbol '':object-type''"
abbreviation QCarray_type :: Lisp_Object where "QCarray_type \<equiv> Symbol '':array-type''"
abbreviation QCnull_object :: Lisp_Object where "QCnull_object \<equiv> Symbol '':null-object''"
abbreviation QCfalse_object :: Lisp_Object where "QCfalse_object \<equiv> Symbol '':false-object''"
abbreviation QCnull :: Lisp_Object where "QCnull \<equiv> Symbol '':null''"
abbreviation QCfalse :: Lisp_Object where "QCfalse \<equiv> Symbol '':false''"
abbreviation Qerror :: Lisp_Object where "Qerror \<equiv> Symbol ''error''"
abbreviation Qjson_end_of_file :: Lisp_Object where "Qjson_end_of_file \<equiv> Symbol ''json-end-of-file''"
abbreviation Qjson_trailing_content :: Lisp_Object where
  "Qjson_trailing_content \<equiv> Symbol ''json-trailing-content''"
abbreviation Qjson_parse_error :: Lisp_Object where "Qjson_parse_error \<equiv> Symbol ''json-parse-error''"

definition EQ :: "Lisp_Object \<Rightarrow> Lisp_Object \<Rightarrow> bool" where
  "EQ a b = (a = b)"

text \<open>\<^verbatim>\<open>Flist\<close>, \<^verbatim>\<open>list1\<close> ... \<^verbatim>\<open>list5\<close>: the proper Lisp list of the given objects.\<close>

fun Flist :: "Lisp_Object list \<Rightarrow> Lisp_Object" where
  "Flist [] = Qnil"
| "Flist (x # xs) = Cons x (Flist xs)"

text \<open>
  A non-local exit of the Lisp machine (\<^verbatim>\<open>Fsignal\<close>, \<^verbatim>\<open>wrong_type_argument\<close>,
  \<^verbatim>\<open>wrong_choice\<close>) is the value \<open>Inl\<close> of a sum: the error symbol and its data.
\<close>

datatype lisp_error =
    Wrong_type_argument Lisp_Object Lisp_Object
  | Wrong_choice Lisp_Object Lisp_Object
  | Signal Lisp_Object Lisp_Object

section \<open>Keyword arguments: \<^verbatim>\<open>json_parse_args\<close>\<close>

datatype json_object_type = json_object_hashtable | json_object_alist | json_object_plist

datatype json_array_type = json_array_array | json_array_list

record json_configuration =
  object_type :: json_object_type
  array_type :: json_array_type
  null_object :: Lisp_Object
  false_object :: Lisp_Object

text \<open>
  The loop \<^verbatim>\<open>for (i = nargs; i > 0; i -= 2)\<close> with \<^verbatim>\<open>key = args[i - 2]\<close> and
  \<^verbatim>\<open>value = args[i - 1]\<close>.  It is only entered with an even \<^verbatim>\<open>nargs\<close>, so \<open>i\<close> stays
  even and both indices are inside \<open>args\<close>.
\<close>

fun json_parse_args_loop ::
  "nat \<Rightarrow> Lisp_Object list \<Rightarrow> json_configuration \<Rightarrow> bool \<Rightarrow> lisp_error + json_configuration"
where
  "json_parse_args_loop i args conf parse_object_types =
     (if i > 0 then
        (let key = args ! (i - 2); value = args ! (i - 1) in
         if parse_object_types \<and> EQ key QCobject_type then
           (if EQ value Qhash_table then
              json_parse_args_loop (i - 2) args (conf\<lparr>object_type := json_object_hashtable\<rparr>)
                parse_object_types
            else if EQ value Qalist then
              json_parse_args_loop (i - 2) args (conf\<lparr>object_type := json_object_alist\<rparr>)
                parse_object_types
            else if EQ value Qplist then
              json_parse_args_loop (i - 2) args (conf\<lparr>object_type := json_object_plist\<rparr>)
                parse_object_types
            else Inl (Wrong_choice (Flist [Qhash_table, Qalist, Qplist]) value))
         else if parse_object_types \<and> EQ key QCarray_type then
           (if EQ value Qarray then
              json_parse_args_loop (i - 2) args (conf\<lparr>array_type := json_array_array\<rparr>)
                parse_object_types
            else if EQ value Qlist then
              json_parse_args_loop (i - 2) args (conf\<lparr>array_type := json_array_list\<rparr>)
                parse_object_types
            else Inl (Wrong_choice (Flist [Qarray, Qlist]) value))
         else if EQ key QCnull_object then
           json_parse_args_loop (i - 2) args (conf\<lparr>null_object := value\<rparr>) parse_object_types
         else if EQ key QCfalse_object then
           json_parse_args_loop (i - 2) args (conf\<lparr>false_object := value\<rparr>) parse_object_types
         else if parse_object_types then
           Inl (Wrong_choice
                  (Flist [QCobject_type, QCarray_type, QCnull_object, QCfalse_object]) value)
         else Inl (Wrong_choice (Flist [QCnull_object, QCfalse_object]) value))
      else Inr conf)"

definition json_parse_args ::
  "Lisp_Object list \<Rightarrow> json_configuration \<Rightarrow> bool \<Rightarrow> lisp_error + json_configuration"
where
  "json_parse_args args conf parse_object_types =
     (if length args mod 2 \<noteq> 0 then Inl (Wrong_type_argument Qplistp (Flist args))
      else json_parse_args_loop (length args) args conf parse_object_types)"

text \<open>
  The configuration every caller starts from:
  \<^verbatim>\<open>{json_object_hashtable, json_array_array, QCnull, QCfalse}\<close>.
\<close>

definition default_configuration :: json_configuration where
  "default_configuration =
     \<lparr>object_type = json_object_hashtable, array_type = json_array_array,
      null_object = QCnull, false_object = QCfalse\<rparr>"

text \<open>
  What a reader of a keyword list expects, written without reference to the loop: the
  value that follows the earliest occurrence of a keyword at a key position.
\<close>

fun first_value :: "Lisp_Object \<Rightarrow> Lisp_Object list \<Rightarrow> Lisp_Object option" where
  "first_value k (a # v # rest) = (if a = k then Some v else first_value k rest)"
| "first_value k _ = None"

text \<open>
  One pass through the body of that loop for the pair \<open>(key, value)\<close>: the same chain of
  tests, returning the updated configuration instead of going on to the next pair.  It is
  used to reason about the loop one iteration at a time.
\<close>

definition parse_pair ::
  "bool \<Rightarrow> Lisp_Object \<Rightarrow> Lisp_Object \<Rightarrow> json_configuration \<Rightarrow> lisp_error + json_configuration"
where
  "parse_pair parse_object_types key value conf =
     (if parse_object_types \<and> EQ key QCobject_type then
        (if EQ value Qhash_table then Inr (conf\<lparr>object_type := json_object_hashtable\<rparr>)
         else if EQ value Qalist then Inr (conf\<lparr>object_type := json_object_alist\<rparr>)
         else if EQ value Qplist then Inr (conf\<lparr>object_type := json_object_plist\<rparr>)
         else Inl (Wrong_choice (Flist [Qhash_table, Qalist, Qplist]) value))
      else if parse_object_types \<and> EQ key QCarray_type then
        (if EQ value Qarray then Inr (conf\<lparr>array_type := json_array_array\<rparr>)
         else if EQ value Qlist then Inr (conf\<lparr>array_type := json_array_list\<rparr>)
         else Inl (Wrong_choice (Flist [Qarray, Qlist]) value))
      else if EQ key QCnull_object then Inr (conf\<lparr>null_object := value\<rparr>)
      else if EQ key QCfalse_object then Inr (conf\<lparr>false_object := value\<rparr>)
      else if parse_object_types then
        Inl (Wrong_choice (Flist [QCobject_type, QCarray_type, QCnull_object, QCfalse_object]) value)
      else Inl (Wrong_choice (Flist [QCnull_object, QCfalse_object]) value))"

text \<open>The object and array representations that the accepted choice symbols stand for.\<close>

definition object_type_of :: "Lisp_Object \<Rightarrow> json_object_type" where
  "object_type_of v =
     (if v = Qhash_table then json_object_hashtable
      else if v = Qalist then json_object_alist else json_object_plist)"

definition array_type_of :: "Lisp_Object \<Rightarrow> json_array_type" where
  "array_type_of v = (if v = Qarray then json_array_array else json_array_list)"

text \<open>
  The configuration a keyword list denotes when, for each keyword, the earliest occurrence
  decides and a keyword that does not occur leaves the field as it was.
\<close>

definition first_wins :: "Lisp_Object list \<Rightarrow> json_configuration \<Rightarrow> json_configuration" where
  "first_wins args conf =
     \<lparr>object_type = (case first_value QCobject_type args of
                       Some v \<Rightarrow> object_type_of v | None \<Rightarrow> object_type conf),
      array_type = (case first_value QCarray_type args of
                      Some v \<Rightarrow> array_type_of v | None \<Rightarrow> array_type conf),
      null_object = (case first_value QCnull_object args of
                       Some v \<Rightarrow> v | None \<Rightarrow> null_object conf),
      false_object = (case first_value QCfalse_object args of
                        Some v \<Rightarrow> v | None \<Rightarrow> false_object conf)\<rparr>"

section \<open>C strings, \<^verbatim>\<open>strstr\<close>, \<^verbatim>\<open>strtol\<close> and \<^verbatim>\<open>%zu\<close>\<close>

text \<open>
  Bytes are \<^typ>\<open>char\<close>.  A value of type \<^typ>\<open>string\<close> is either the content of a
  NUL-terminated C string (\<^verbatim>\<open>char *\<close> returned by \<^verbatim>\<open>json_dumps\<close>, string literals),
  which then holds no NUL, or the bytes of a raw buffer; of a raw buffer the C library
  functions see \<open>c_str\<close>, the bytes before the first NUL.
\<close>

abbreviation NUL :: char where "NUL \<equiv> CHR 0x00"
abbreviation CR :: char where "CR \<equiv> CHR 0x0D"
abbreviation LF :: char where "LF \<equiv> CHR 0x0A"

definition c_str :: "string \<Rightarrow> string" where
  "c_str buf = takeWhile (\<lambda>c. c \<noteq> NUL) buf"

definition strlen :: "string \<Rightarrow> nat" where
  "strlen s = length s"

text \<open>\<^verbatim>\<open>strstr (haystack, needle) != NULL\<close>: the needle occurs in the haystack.\<close>

fun strstr :: "string \<Rightarrow> string \<Rightarrow> bool" where
  "strstr [] needle = (needle = [])"
| "strstr (c # cs) needle = (take (length needle) (c # cs) = needle \<or> strstr cs needle)"

text \<open>The conversion \<^verbatim>\<open>%zu\<close> of \<^verbatim>\<open>sprintf\<close>: a \<^verbatim>\<open>size_t\<close> in decimal.\<close>

fun decimal :: "nat \<Rightarrow> string" where
  "decimal n =
     (if n < 10 then [''0123456789'' ! n]
      else decimal (n div 10) @ [''0123456789'' ! (n mod 10)])"

definition isspace :: "char \<Rightarrow> bool" where
  "isspace c = (c \<in> set [CHR '' '', CHR 0x09, LF, CHR 0x0B, CHR 0x0C, CR])"

definition isdigit :: "char \<Rightarrow> bool" where
  "isdigit c = (c \<in> set ''0123456789'')"

definition digit_value :: "char \<Rightarrow> int" where
  "digit_value c = int (of_char c) - 48"

fun strtol_digits :: "int \<Rightarrow> string \<Rightarrow> int" where
  "strtol_digits acc [] = acc"
| "strtol_digits acc (c # cs) =
     (if isdigit c then strtol_digits (acc * 10 + digit_value c) cs else acc)"

definition LONG_MAX :: int where "LONG_MAX = 2 ^ 63 - 1"
definition LONG_MIN :: int where "LONG_MIN = - (2 ^ 63)"

text \<open>
  \<^verbatim>\<open>strtol (s, &end, 10)\<close>: white space is skipped, an optional sign is read, then the
  longest run of decimal digits; without a digit the result is 0, and a value outside
  \<^verbatim>\<open>long\<close> is clamped.  The source never looks at \<^verbatim>\<open>end\<close> or \<^verbatim>\<open>errno\<close>.
\<close>

definition strtol :: "string \<Rightarrow> int" where
  "strtol s =
     (let t = dropWhile isspace s;
          v = (case t of
                 [] \<Rightarrow> 0
               | c # cs \<Rightarrow>
                   if c = CHR ''-'' then - strtol_digits 0 cs
                   else if c = CHR ''+'' then strtol_digits 0 cs
                   else strtol_digits 0 t)
      in max LONG_MIN (min LONG_MAX v))"

text \<open>
  The text between the marker and the delimiter holds no decimal integer: after the white
  space and an optional sign there is no digit.
\<close>

definition non_numeric :: "string \<Rightarrow> bool" where
  "non_numeric s =
     (case dropWhile isspace s of
        [] \<Rightarrow> True
      | c # cs \<Rightarrow>
          if c = CHR ''-'' \<or> c = CHR ''+'' then (case cs of [] \<Rightarrow> True | d # _ \<Rightarrow> \<not> isdigit d)
          else \<not> isdigit c)"

text \<open>
  \<^verbatim>\<open>int n = (size_t) ...\<close>: a count that \<^verbatim>\<open>int\<close> cannot hold wraps around (two's
  complement, 32 bits).
\<close>

definition INT_MAX :: nat where "INT_MAX = 2 ^ 31 - 1"

definition int_of_size_t :: "nat \<Rightarrow> int" where
  "int_of_size_t n =
     (let m = int n mod 2 ^ 32 in if m < 2 ^ 31 then m else m - 2 ^ 32)"

section \<open>The connection handle\<close>

text \<open>
  Modelled from the spec: the connection handle \<^verbatim>\<open>struct SSP_Handle\<close> and its operations
  \<^verbatim>\<open>send\<close>, \<^verbatim>\<open>recv\<close>, \<^verbatim>\<open>isalive\<close>, \<^verbatim>\<open>cancel_recv\<close> and \<^verbatim>\<open>close\<close> come from
  \<^verbatim>\<open>spsupr.h\<close> and \<^verbatim>\<open>spsupr.c\<close>, which are not among the sources.  The spec (4.1) gives
  their contract only: \<open>receive\<close> returns the stdout bytes that are available, at most as
  many as asked for, and drains pending diagnostic bytes into the region it is given;
  \<open>isAlive\<close> does not block; \<open>send\<close> reports how many bytes it wrote, possibly fewer than
  asked.  What the child process does is therefore a script carried by the handle: the
  answers of the successive \<^verbatim>\<open>recv\<close> calls and of the successive \<^verbatim>\<open>isalive\<close> calls.  When
  a script is used up the process has nothing more to say: \<^verbatim>\<open>recv\<close> returns nothing and
  \<^verbatim>\<open>isalive\<close> answers false.  The handle also logs what it was asked to do.
\<close>

record recv_result =
  rr_res :: nat      \<comment> \<open>the value \<^verbatim>\<open>recv\<close> returns (\<^verbatim>\<open>read_res\<close>)\<close>
  rr_out :: string   \<comment> \<open>stdout bytes stored into \<^verbatim>\<open>buffer\<close>; their number comes back in \<^verbatim>\<open>result\<close>\<close>
  rr_err :: string   \<comment> \<open>stderr bytes stored into the error buffer; their number comes back in \<^verbatim>\<open>stderr_size\<close>\<close>

record SSP_Handle =
  recv_script :: "recv_result list"
  alive_script :: "bool list"
  sent :: "string list"     \<comment> \<open>the buffers given to \<^verbatim>\<open>send\<close>, oldest first\<close>
  cancels :: nat            \<comment> \<open>number of \<^verbatim>\<open>cancel_recv\<close> calls\<close>
  ssp_pid :: int

text \<open>Modelled from the spec: \<^verbatim>\<open>recv\<close> never stores more than the two capacities it is given.\<close>

definition ssp_recv :: "SSP_Handle \<Rightarrow> nat \<Rightarrow> nat \<Rightarrow> recv_result \<times> SSP_Handle" where
  "ssp_recv h size' stderr_size =
     (case recv_script h of
        [] \<Rightarrow> (\<lparr>rr_res = 0, rr_out = [], rr_err = []\<rparr>, h)
      | r # rs \<Rightarrow>
          (\<lparr>rr_res = rr_res r, rr_out = take size' (rr_out r),
            rr_err = take stderr_size (rr_err r)\<rparr>,
           h\<lparr>recv_script := rs\<rparr>))"

text \<open>Modelled from the spec: \<^verbatim>\<open>isalive\<close>.\<close>

definition ssp_isalive :: "SSP_Handle \<Rightarrow> bool \<times> SSP_Handle" where
  "ssp_isalive h =
     (case alive_script h of
        [] \<Rightarrow> (False, h)
      | a # as \<Rightarrow> (a, h\<lparr>alive_script := as\<rparr>))"

text \<open>
  Modelled from the spec: \<^verbatim>\<open>send (handle, &cancel_send, msg, n)\<close>.  How many bytes the write
  takes is decided by the child and the pipe: it is the argument \<open>bytes_sent\<close>.
\<close>

definition ssp_send :: "SSP_Handle \<Rightarrow> string \<Rightarrow> int \<Rightarrow> int \<Rightarrow> int \<times> SSP_Handle" where
  "ssp_send h msg n bytes_sent = (bytes_sent, h\<lparr>sent := sent h @ [take (nat n) msg]\<rparr>)"

text \<open>Modelled from the spec: \<^verbatim>\<open>cancel_recv\<close>.\<close>

definition ssp_cancel_recv :: "SSP_Handle \<Rightarrow> SSP_Handle" where
  "ssp_cancel_recv h = h\<lparr>cancels := Suc (cancels h)\<rparr>"

section \<open>The session state\<close>

text \<open>The decoder's error record \<^verbatim>\<open>json_error_t\<close> and the codes \<^verbatim>\<open>json_error_code\<close> tells apart.\<close>

datatype json_error_code =
    json_error_premature_end_of_input
  | json_error_end_of_input_expected
  | json_error_invalid_syntax

record json_error_t =
  line :: int
  column :: int
  position :: int
  source :: string
  error_text :: string   \<comment> \<open>the field \<^verbatim>\<open>text\<close>\<close>
  code :: json_error_code

text \<open>
  What can go wrong below Lisp: a failed \<^verbatim>\<open>assert\<close>, a call or a store through a null
  pointer, an access outside a buffer, a count that its C type cannot hold, \<^verbatim>\<open>free\<close> of an
  object that \<^verbatim>\<open>malloc\<close> did not return.  Where the model returns a \<open>fault\<close> the behaviour of
  the C program is no longer defined by the source.
\<close>

datatype fault =
  Assertion_failed | Null_dereference | Buffer_overrun | Integer_overflow | Invalid_free

text \<open>
  \<^verbatim>\<open>struct json_rpc_state\<close>.  \<open>handle = None\<close> is the null pointer, the closed sentinel.
  The mutex \<^verbatim>\<open>handle_mx\<close> is not a field: every operation below runs as one step, the mutex
  is free between steps, and whether \<^verbatim>\<open>pthread_mutex_timedlock\<close> gets it in time is an
  argument of the operation.  \<open>closed\<close> is not a field of the C struct either: it lists the
  handles on which \<^verbatim>\<open>close\<close> has been called.
\<close>

record 'j json_rpc_state =
  handle :: "SSP_Handle option"
  message :: "'j option"
  error :: json_error_t
  done' :: bool   \<comment> \<open>the field \<^verbatim>\<open>done\<close>\<close>
  pid :: int
  cancel_send :: bool
  error_buffer :: string
  error_buffer_read :: nat
  closed :: "SSP_Handle list"

definition BUFFER_SIZE :: nat where "BUFFER_SIZE = 1000"

definition ERROR_BUFFER_SIZE :: nat where "ERROR_BUFFER_SIZE = 1024 * 1024 * 4"

text \<open>
  The success branch of \<^verbatim>\<open>json-rpc-connection\<close>: \<^verbatim>\<open>malloc\<close> does not clear the new state,
  so the fields that are not assigned (\<open>message\<close>, \<open>error\<close>, \<open>error_buffer\<close>) keep whatever
  the memory \<open>uninitialised\<close> held.
\<close>

definition json_rpc_connection_state ::
  "SSP_Handle \<Rightarrow> 'j json_rpc_state \<Rightarrow> 'j json_rpc_state"
where
  "json_rpc_connection_state h uninitialised =
     uninitialised\<lparr>handle := Some h, cancel_send := False, done' := False,
       error_buffer_read := 0, pid := ssp_pid h, closed := []\<rparr>"

text \<open>
  \<^verbatim>\<open>end_using_handle\<close> asserts that the handle is there and unlocks; \<^verbatim>\<open>can_use_handle\<close>
  answers 1 when the lock was taken in time and the handle is there.  When the lock was
  taken and the handle is gone it calls \<^verbatim>\<open>end_using_handle\<close>, whose assertion then fails.
\<close>

definition end_using_handle :: "'j json_rpc_state \<Rightarrow> fault + unit" where
  "end_using_handle state = (if handle state = None then Inl Assertion_failed else Inr ())"

definition can_use_handle :: "bool \<Rightarrow> 'j json_rpc_state \<Rightarrow> fault + bool" where
  "can_use_handle locked state =
     (if locked then
        (if handle state \<noteq> None then Inr True
         else (case end_using_handle state of Inl f \<Rightarrow> Inl f | Inr _ \<Rightarrow> Inr False))
      else Inr False)"

text \<open>\<^verbatim>\<open>json_rpc_state_free\<close>, the finalizer of the user pointer: ``Loop must be exited''.\<close>

definition json_rpc_state_free :: "'j json_rpc_state \<Rightarrow> fault + unit" where
  "json_rpc_state_free state = (if handle state = None then Inr () else Inl Assertion_failed)"

text \<open>How a Lisp primitive ends: it returns a value or it signals.\<close>

datatype exit = Returned Lisp_Object | Signalled lisp_error

section \<open>The send path\<close>

text \<open>\<^verbatim>\<open>sprintf (msg, "Content-Length: %zu\r\n\r\n%s", size, string)\<close>.\<close>

definition frame :: "string \<Rightarrow> string" where
  "frame string =
     ''Content-Length: '' @ decimal (strlen string) @ [CR, LF, CR, LF] @ string"

text \<open>
  \<^verbatim>\<open>json_rpc_send_callback\<close>.  \<open>json_dumps\<close> stands for
  \<^verbatim>\<open>json_dumps (message, JSON_COMPACT | JSON_ENCODE_ANY)\<close> of the JSON library; \<open>locked\<close>
  says whether the 5 ms \<^verbatim>\<open>pthread_mutex_timedlock\<close> succeeded and \<open>bytes_sent\<close> is what the
  one call of \<^verbatim>\<open>send\<close> will report.  The result is \<^verbatim>\<open>param->res\<close> and the new state.
\<close>

definition json_rpc_send_callback ::
  "('j \<Rightarrow> string) \<Rightarrow> bool \<Rightarrow> int \<Rightarrow> 'j json_rpc_state \<Rightarrow> 'j \<Rightarrow> fault + (int \<times> 'j json_rpc_state)"
where
  "json_rpc_send_callback json_dumps locked bytes_sent state msg_json =
     (case can_use_handle locked state of
        Inl f \<Rightarrow> Inl f
      | Inr False \<Rightarrow> Inr (- 1, state)
      | Inr True \<Rightarrow>
          (case handle state of
             None \<Rightarrow> Inl Null_dereference
           | Some h \<Rightarrow>
               (let string = json_dumps msg_json;
                    msg = frame string;
                    bytes_to_send = int_of_size_t (strlen msg);
                    (sent_now, h') = ssp_send h msg bytes_to_send bytes_sent;
                    state' = state\<lparr>handle := Some h'\<rparr>
                in if \<not> sent_now \<le> bytes_to_send then Inl Assertion_failed
                   else (case end_using_handle state' of
                           Inl f \<Rightarrow> Inl f
                         | Inr _ \<Rightarrow> Inr (if sent_now = bytes_to_send then 0 else - 1, state')))))"

text \<open>
  \<^verbatim>\<open>json-rpc-send\<close>, with \<open>args\<close> the keyword arguments \<^verbatim>\<open>args + 2\<close>, \<open>lisp\<close> the message
  \<^verbatim>\<open>args[1]\<close> and \<open>state\<close> the state behind the connection \<^verbatim>\<open>args[0]\<close>.  \<open>lisp_to_json\<close> is
  the encoder of the JSON part of the file, which may signal.
\<close>

definition Fjson_rpc_send ::
  "(Lisp_Object \<Rightarrow> json_configuration \<Rightarrow> lisp_error + 'j) \<Rightarrow> ('j \<Rightarrow> string) \<Rightarrow> bool \<Rightarrow> int \<Rightarrow>
   Lisp_Object list \<Rightarrow> Lisp_Object \<Rightarrow> 'j json_rpc_state \<Rightarrow> fault + (exit \<times> 'j json_rpc_state)"
where
  "Fjson_rpc_send lisp_to_json json_dumps locked bytes_sent args lisp state =
     (case json_parse_args args default_configuration False of
        Inl e \<Rightarrow> Inr (Signalled e, state)
      | Inr conf \<Rightarrow>
          (case lisp_to_json lisp conf of
             Inl e \<Rightarrow> Inr (Signalled e, state)
           | Inr msg_json \<Rightarrow>
               (case json_rpc_send_callback json_dumps locked bytes_sent state msg_json of
                  Inl f \<Rightarrow> Inl f
                | Inr (res, state') \<Rightarrow>
                    if res < 0 then
                      Inr (Signalled (Signal Qerror (Flist [String ''Failed to send message''])),
                           state')
                    else Inr (Returned Qnil, state'))))"

section \<open>Shutdown and the small accessors\<close>

text \<open>\<^verbatim>\<open>json-rpc-shutdown\<close>; \<open>locked\<close> says whether the 1 s timed lock succeeded.\<close>

definition Fjson_rpc_shutdown ::
  "bool \<Rightarrow> 'j json_rpc_state \<Rightarrow> fault + (exit \<times> 'j json_rpc_state)"
where
  "Fjson_rpc_shutdown locked state0 =
     (let state = state0\<lparr>cancel_send := True\<rparr> in
      case can_use_handle locked state of
        Inl f \<Rightarrow> Inl f
      | Inr False \<Rightarrow> Inr (Returned Qnil, state)
      | Inr True \<Rightarrow>
          (case handle state of
             None \<Rightarrow> Inl Null_dereference
           | Some h \<Rightarrow>
               (let state' = state\<lparr>handle := Some (ssp_cancel_recv h)\<rparr> in
                case end_using_handle state' of
                  Inl f \<Rightarrow> Inl f
                | Inr _ \<Rightarrow> Inr (Returned Qnil, state'))))"

definition Fjson_rpc_pid :: "'j json_rpc_state \<Rightarrow> Lisp_Object" where
  "Fjson_rpc_pid state = Fixnum (if done' state then - 1 else pid state)"

definition Fjson_rpc_stderr :: "'j json_rpc_state \<Rightarrow> Lisp_Object" where
  "Fjson_rpc_stderr state = String (take (error_buffer_read state) (error_buffer state))"

section \<open>The framed reader\<close>

text \<open>
  What \<^verbatim>\<open>recv\<close> does to the error buffer: it stores \<open>bytes\<close> from offset \<open>off\<close> on.
\<close>

definition write_at :: "string \<Rightarrow> nat \<Rightarrow> string \<Rightarrow> string" where
  "write_at buf off bytes = take off buf @ bytes @ drop (off + length bytes) buf"

text \<open>
  \<^verbatim>\<open>strcpy (buf, buf + src)\<close>: the bytes from \<open>src\<close> up to and including the first NUL are
  copied to the start of \<open>buf\<close>, front to back; the reads stay ahead of the writes, so the
  bytes copied are those the buffer held before the call.  If there is no NUL between
  \<open>src\<close> and the end of the array the copy runs out of it: \<open>None\<close>.
\<close>

definition strcpy_to_start :: "string \<Rightarrow> nat \<Rightarrow> string option" where
  "strcpy_to_start buf src =
     (let s = c_str (drop src buf)
      in if src + length s < length buf
         then Some (s @ [NUL] @ drop (length s + 1) buf)
         else None)"

text \<open>
  The part of \<^verbatim>\<open>read_stdout\<close> that looks after the diagnostic bytes \<open>err\<close> which \<^verbatim>\<open>recv\<close>
  has just stored at \<^verbatim>\<open>error_buffer + error_buffer_read\<close>:
  \<^verbatim>\<open>if (stderr_size) { error_buffer_read += stderr_size; if (error_buffer_read == ERROR_BUFFER_SIZE) { error_buffer_read = ERROR_BUFFER_SIZE / 2; strcpy (error_buffer, error_buffer + ERROR_BUFFER_SIZE / 2); } }\<close>.
\<close>

definition capture_stderr :: "'j json_rpc_state \<Rightarrow> string \<Rightarrow> fault + 'j json_rpc_state" where
  "capture_stderr param err =
     (if length err \<noteq> 0 then
        (let buf = write_at (error_buffer param) (error_buffer_read param) err;
             fill = error_buffer_read param + length err
         in if fill = ERROR_BUFFER_SIZE then
              (case strcpy_to_start buf (ERROR_BUFFER_SIZE div 2) of
                 None \<Rightarrow> Inl Buffer_overrun
               | Some buf' \<Rightarrow>
                   Inr (param\<lparr>error_buffer := buf',
                          error_buffer_read := ERROR_BUFFER_SIZE div 2\<rparr>))
            else Inr (param\<lparr>error_buffer := buf, error_buffer_read := fill\<rparr>))
      else Inr param)"

text \<open>What is left of the child's scripts; every loop below uses some of it up.\<close>

definition script_size :: "'j json_rpc_state \<Rightarrow> nat" where
  "script_size param =
     (case handle param of
        None \<Rightarrow> 0
      | Some h \<Rightarrow> length (recv_script h) + length (alive_script h))"

text \<open>
  \<^verbatim>\<open>read_stdout (param, buffer, size)\<close>: the bytes stored into \<open>buffer\<close> (their number is the
  C function's result) and the new state.  The loop goes round while no stdout byte came
  and \<^verbatim>\<open>read_res > 0 || handle->isalive (handle)\<close>.
\<close>

function read_stdout ::
  "'j json_rpc_state \<Rightarrow> nat \<Rightarrow> fault + (string \<times> 'j json_rpc_state)"
where
  "read_stdout param size' =
     (case handle param of
        None \<Rightarrow> Inl Null_dereference
      | Some h \<Rightarrow>
          (let stderr_size = ERROR_BUFFER_SIZE - error_buffer_read param;
               (r, h1) = ssp_recv h size' stderr_size
           in case capture_stderr (param\<lparr>handle := Some h1\<rparr>) (rr_err r) of
                Inl f \<Rightarrow> Inl f
              | Inr p1 \<Rightarrow>
                  if rr_out r \<noteq> [] then Inr (rr_out r, p1)
                  else if rr_res r > 0 then read_stdout p1 size'
                  else (let (alive, h2) = ssp_isalive h1
                        in if alive then read_stdout (p1\<lparr>handle := Some h2\<rparr>) size'
                           else Inr ([], p1\<lparr>handle := Some h2\<rparr>))))"
  by pat_completeness auto
termination
proof (relation "measure (\<lambda>(param, _). script_size param)")
  show "wf (measure (\<lambda>(param, _). script_size param))" by simp
next
  fix param :: "'j json_rpc_state" and size' h stderr_size x r h1 p1
  assume a: "handle param = Some h" "stderr_size = ERROR_BUFFER_SIZE - error_buffer_read param"
    "x = ssp_recv h size' stderr_size" "(r, h1) = x"
    "capture_stderr (param\<lparr>handle := Some h1\<rparr>) (rr_err r) = Inr p1"
    "\<not> rr_out r \<noteq> []" "0 < rr_res r"
  have "handle p1 = Some h1"
    using a(5) by (auto simp: capture_stderr_def Let_def split: if_splits option.splits)
  moreover have "length (recv_script h1) < length (recv_script h)"
    "alive_script h1 = alive_script h"
    using a(3,4,7) by (auto simp: ssp_recv_def split: list.splits)
  ultimately show "((p1, size'), param, size') \<in> measure (\<lambda>(param, _). script_size param)"
    using a(1) by (simp add: script_size_def)
next
  fix param :: "'j json_rpc_state" and size' h stderr_size x r h1 p1 y alive h2
  assume a: "handle param = Some h" "stderr_size = ERROR_BUFFER_SIZE - error_buffer_read param"
    "x = ssp_recv h size' stderr_size" "(r, h1) = x"
    "capture_stderr (param\<lparr>handle := Some h1\<rparr>) (rr_err r) = Inr p1"
    "\<not> rr_out r \<noteq> []" "\<not> 0 < rr_res r" "y = ssp_isalive h1" "(alive, h2) = y" "alive"
  have "length (recv_script h1) \<le> length (recv_script h)"
    "alive_script h1 = alive_script h"
    using a(3,4) by (auto simp: ssp_recv_def split: list.splits)
  moreover have "length (alive_script h2) < length (alive_script h1)"
    "recv_script h2 = recv_script h1"
    using a(8,9,10) by (auto simp: ssp_isalive_def split: list.splits)
  ultimately show
    "((p1\<lparr>handle := Some h2\<rparr>, size'), param, size') \<in> measure (\<lambda>(param, _). script_size param)"
    using a(1) by (simp add: script_size_def)
qed

declare read_stdout.simps [simp del]

text \<open>
  \<^verbatim>\<open>read_until (param, needle, output)\<close>, with \<open>output\<close> the bytes read into \<^verbatim>\<open>data\<close> so far
  (the rest of \<^verbatim>\<open>data\<close> is what \<^verbatim>\<open>memset\<close> cleared).  The result says whether the needle
  was found and gives the bytes read.  \<^verbatim>\<open>data\<close> has \<^verbatim>\<open>BUFFER_SIZE + 1\<close> bytes of which
  \<^verbatim>\<open>BUFFER_SIZE\<close> are cleared, and nothing in the source bounds the scan
  (``make sure output is not overflowing''): when \<^verbatim>\<open>BUFFER_SIZE\<close> bytes have been read
  without the needle the model stops with \<open>Buffer_overrun\<close>.
\<close>

function read_until ::
  "'j json_rpc_state \<Rightarrow> string \<Rightarrow> string \<Rightarrow> fault + (bool \<times> string \<times> 'j json_rpc_state)"
where
  "read_until param needle output =
     (if strstr (c_str output) needle then Inr (True, output, param)
      else if BUFFER_SIZE \<le> length output then Inl Buffer_overrun
      else (case read_stdout param 1 of
              Inl f \<Rightarrow> Inl f
            | Inr (bytes, p1) \<Rightarrow>
                if length bytes = 0 then Inr (False, output, p1)
                else read_until p1 needle (output @ bytes)))"
  by pat_completeness auto
termination
  by (relation "measure (\<lambda>(_, _, output). BUFFER_SIZE - length output)")
    (auto simp: neq_Nil_conv)

declare read_until.simps [simp del]

text \<open>
  What \<^verbatim>\<open>json_rpc_callback\<close> and \<^verbatim>\<open>json-rpc\<close> call outside the transport:
  \<^item> \<open>json_loads\<close> stands for \<^verbatim>\<open>json_loads (msg, JSON_DECODE_ANY | JSON_ALLOW_NUL, &param->error)\<close>
    of the JSON library, which sees the payload as a C string;
  \<^item> \<open>json_to_lisp\<close> is the conversion of a decoded value to a Lisp object; it may signal;
  \<^item> \<open>json_on_heap\<close> says whether the decoded value is an object that the JSON library got
    from \<^verbatim>\<open>malloc\<close> (it hands out shared static objects for \<^verbatim>\<open>true\<close>, \<^verbatim>\<open>false\<close> and \<^verbatim>\<open>null\<close>);
  \<^item> \<open>malloc\<close> says for which sizes \<^verbatim>\<open>malloc\<close> returns a buffer and not the null pointer.
\<close>

record 'j library =
  json_loads :: "string \<Rightarrow> json_error_t + 'j"
  json_to_lisp :: "'j \<Rightarrow> json_configuration \<Rightarrow> lisp_error + Lisp_Object"
  json_on_heap :: "'j \<Rightarrow> bool"
  malloc :: "nat \<Rightarrow> bool"

text \<open>
  \<^verbatim>\<open>const size_t content_length = strtol (data, &_end, 10)\<close>: a negative \<^verbatim>\<open>long\<close> wraps around
  (64 bits).
\<close>

definition size_t_of_long :: "int \<Rightarrow> nat" where
  "size_t_of_long v = nat (v mod 2 ^ 64)"

text \<open>
  \<^verbatim>\<open>char *msg = malloc (content_length + 1)\<close>, with the sum taken in \<^verbatim>\<open>size_t\<close>: the capacity of
  the buffer, or \<open>None\<close> for the null pointer.  The source does not test the result.
\<close>

definition msg_buffer :: "'j library \<Rightarrow> nat \<Rightarrow> nat option" where
  "msg_buffer lib content_length =
     (let n = (content_length + 1) mod 2 ^ 64 in if malloc lib n then Some n else None)"

text \<open>
  The payload loop of \<^verbatim>\<open>json_rpc_callback\<close>:
  \<^verbatim>\<open>while (has_to_read > 0) { int bytes_read = read_stdout (param, msg + (content_length - has_to_read), has_to_read); if (bytes_read == 0) { param->done = true; break; } has_to_read -= bytes_read; }\<close>.
  \<open>buffer\<close> is the capacity of \<^verbatim>\<open>msg\<close> (\<open>None\<close> when \<^verbatim>\<open>msg\<close> is null) and \<open>msg\<close> is what has been
  stored so far.  Bytes that \<^verbatim>\<open>recv\<close> stores through a null \<^verbatim>\<open>msg\<close>, or beyond its capacity, are a
  fault; a read that brings no byte stores nothing.  A single read of more than \<^verbatim>\<open>INT_MAX\<close>
  bytes does not fit \<^verbatim>\<open>bytes_read\<close>; the model stops there with \<open>Integer_overflow\<close>.
\<close>

function read_payload ::
  "'j json_rpc_state \<Rightarrow> nat option \<Rightarrow> nat \<Rightarrow> nat \<Rightarrow> string \<Rightarrow>
   fault + (string \<times> 'j json_rpc_state)"
where
  "read_payload param buffer content_length has_to_read msg =
     (if has_to_read > 0 then
        (case read_stdout param has_to_read of
           Inl f \<Rightarrow> Inl f
         | Inr (bytes, p1) \<Rightarrow>
             if bytes \<noteq> [] \<and> buffer = None then Inl Null_dereference
             else if bytes \<noteq> [] \<and>
                     the buffer < (content_length - has_to_read) + length bytes
                  then Inl Buffer_overrun
             else if length bytes > INT_MAX then Inl Integer_overflow
             else (let bytes_read = int_of_size_t (length bytes)
                   in if bytes_read = 0 then Inr (msg, p1\<lparr>done' := True\<rparr>)
                      else read_payload p1 buffer content_length
                             (has_to_read - nat bytes_read) (msg @ bytes)))
      else Inr (msg, param))"
  by pat_completeness auto
termination
  by (relation "measure (\<lambda>(_, _, _, has_to_read, _). has_to_read)")
    (auto simp: int_of_size_t_def INT_MAX_def Let_def split: if_splits)

declare read_payload.simps [simp del]

text \<open>
  \<^verbatim>\<open>json_rpc_callback\<close>: one frame.  After the payload loop, unless \<open>done\<close> is set, the
  terminator is stored (\<^verbatim>\<open>msg[content_length] = '\0'\<close>, a fault when \<^verbatim>\<open>msg\<close> is null or has no
  such byte) and the payload is decoded.
\<close>

definition json_rpc_callback ::
  "'j library \<Rightarrow> 'j json_rpc_state \<Rightarrow> fault + 'j json_rpc_state"
where
  "json_rpc_callback lib param =
     (case read_until param ''Content-Length:'' [] of
        Inl f \<Rightarrow> Inl f
      | Inr (found, _, p1) \<Rightarrow>
          if found then
            (case read_until p1 [CR, LF, CR, LF] [] of
               Inl f \<Rightarrow> Inl f
             | Inr (found', data, p2) \<Rightarrow>
                 if found' then
                   (let content_length = size_t_of_long (strtol (c_str data));
                        buffer = msg_buffer lib content_length
                    in case read_payload p2 buffer content_length content_length [] of
                         Inl f \<Rightarrow> Inl f
                       | Inr (msg, p3) \<Rightarrow>
                           if \<not> done' p3 then
                             (case buffer of
                                None \<Rightarrow> Inl Null_dereference
                              | Some capacity \<Rightarrow>
                                  if capacity \<le> content_length then Inl Buffer_overrun
                                  else (case json_loads lib (c_str msg) of
                                          Inr j \<Rightarrow> Inr (p3\<lparr>message := Some j\<rparr>)
                                        | Inl e \<Rightarrow> Inr (p3\<lparr>message := None, error := e\<rparr>)))
                           else Inr p3)
                 else Inr (p2\<lparr>done' := True\<rparr>))
          else Inr (p1\<lparr>done' := True\<rparr>))"

section \<open>The dispatch loop\<close>

text \<open>\<^verbatim>\<open>get_json_parse_error\<close>, in the variant for a JSON library with error codes.\<close>

definition get_json_parse_error :: "json_error_t \<Rightarrow> Lisp_Object" where
  "get_json_parse_error e =
     (let symbol = (case code e of
                      json_error_premature_end_of_input \<Rightarrow> Qjson_end_of_file
                    | json_error_end_of_input_expected \<Rightarrow> Qjson_trailing_content
                    | _ \<Rightarrow> Qjson_parse_error)
      in Cons symbol
           (Flist [String (error_text e), String (source e), Fixnum (line e),
                   Fixnum (column e), Fixnum (position e)]))"

text \<open>
  A call \<^verbatim>\<open>CALLN (Ffuncall, callback, msg, error, eof)\<close> of the handler is recorded as the
  triple of its arguments.  The handler is a Lisp function: given the calls made to it so
  far and the arguments of this call it returns (\<open>None\<close>) or signals.  What it may do to
  the session meanwhile through \<^verbatim>\<open>json-rpc-send\<close> and \<^verbatim>\<open>json-rpc-shutdown\<close> (the send log, the
  cancellation flag and the \<^verbatim>\<open>cancel_recv\<close> calls of the handle, none of which the loop
  reads) is not recorded.
\<close>

type_synonym delivery = "Lisp_Object \<times> Lisp_Object \<times> Lisp_Object"

type_synonym handler = "delivery list \<Rightarrow> delivery \<Rightarrow> lisp_error option"

definition end_of_session :: delivery where
  "end_of_session = (Qnil, Qnil, Qt)"

text \<open>
  The loop \<^verbatim>\<open>while (!param->done && handle->isalive (handle))\<close> of \<^verbatim>\<open>json-rpc\<close>, with
  \<^verbatim>\<open>handle\<close> the handle found in the state at entry and \<open>calls\<close> the handler calls made so
  far.  For a decoded message the body runs
  \<^verbatim>\<open>msg = json_to_lisp (param->message, &conf); free (param->message); param->message = NULL; CALLN (Ffuncall, callback, msg, Qnil, Qnil);\<close>
  in this order; \<^verbatim>\<open>free\<close> of an object that is not from \<^verbatim>\<open>malloc\<close> is a fault.  The result
  is the signal that left the loop, if any, the handler calls, and the state.
\<close>

function Fjson_rpc_loop ::
  "'j library \<Rightarrow> handler \<Rightarrow> json_configuration \<Rightarrow> delivery list \<Rightarrow> 'j json_rpc_state \<Rightarrow>
   fault + (lisp_error option \<times> delivery list \<times> 'j json_rpc_state)"
where
  "Fjson_rpc_loop lib callback conf calls param =
     (if done' param then Inr (None, calls, param)
      else (case handle param of
              None \<Rightarrow> Inl Null_dereference
            | Some h \<Rightarrow>
                (let (alive, h1) = ssp_isalive h
                 in if \<not> alive then Inr (None, calls, param\<lparr>handle := Some h1\<rparr>)
                    else (case json_rpc_callback lib (param\<lparr>handle := Some h1\<rparr>) of
                            Inl f \<Rightarrow> Inl f
                          | Inr p1 \<Rightarrow>
                              if \<not> done' p1 then
                                (case message p1 of
                                   Some m \<Rightarrow>
                                     (case json_to_lisp lib m conf of
                                        Inl e \<Rightarrow> Inr (Some e, calls, p1)
                                      | Inr msg \<Rightarrow>
                                          if \<not> json_on_heap lib m then Inl Invalid_free
                                          else (case callback calls (msg, Qnil, Qnil) of
                                                  Some e \<Rightarrow>
                                                    Inr (Some e, calls @ [(msg, Qnil, Qnil)],
                                                         p1\<lparr>message := None\<rparr>)
                                                | None \<Rightarrow>
                                                    Fjson_rpc_loop lib callback conf
                                                      (calls @ [(msg, Qnil, Qnil)])
                                                      (p1\<lparr>message := None\<rparr>)))
                                 | None \<Rightarrow>
                                     (let d = (Qnil, get_json_parse_error (error p1), Qnil)
                                      in case callback calls d of
                                           Some e \<Rightarrow> Inr (Some e, calls @ [d], p1)
                                         | None \<Rightarrow>
                                             Fjson_rpc_loop lib callback conf (calls @ [d]) p1))
                              else Fjson_rpc_loop lib callback conf calls p1))))"
  by pat_completeness auto

text \<open>
  \<^verbatim>\<open>json-rpc\<close>, with \<open>callback\<close> the handler \<^verbatim>\<open>args[1]\<close>, \<open>args\<close> the keyword arguments
  \<^verbatim>\<open>args + 2\<close> and \<open>param\<close> the state behind the connection \<^verbatim>\<open>args[0]\<close>.  A signal, from
  \<^verbatim>\<open>json_parse_args\<close>, from \<^verbatim>\<open>json_to_lisp\<close> or from the handler, leaves the function at once:
  nothing protects the rest of it.  After the loop the handler gets the end-of-session
  call; then, if the 1 s timed lock succeeds (\<open>locked\<close>), the handle is closed and set to
  null; if it does not, nothing is done (``TODO: what if mutex_lock fails?'').  The result
  is how the function ended, the handler calls it made, and the state.
\<close>

definition Fjson_rpc ::
  "'j library \<Rightarrow> handler \<Rightarrow> bool \<Rightarrow> Lisp_Object list \<Rightarrow> 'j json_rpc_state \<Rightarrow>
   fault + (exit \<times> delivery list \<times> 'j json_rpc_state)"
where
  "Fjson_rpc lib callback locked args param =
     (case json_parse_args args default_configuration True of
        Inl e \<Rightarrow> Inr (Signalled e, [], param)
      | Inr conf \<Rightarrow>
          (case Fjson_rpc_loop lib callback conf [] param of
             Inl f \<Rightarrow> Inl f
           | Inr (Some e, calls, p1) \<Rightarrow> Inr (Signalled e, calls, p1)
           | Inr (None, calls, p1) \<Rightarrow>
               (case callback calls end_of_session of
                  Some e \<Rightarrow> Inr (Signalled e, calls @ [end_of_session], p1)
                | None \<Rightarrow>
                    if locked then
                      (case handle p1 of
                         None \<Rightarrow> Inl Null_dereference
                       | Some h \<Rightarrow>
                           Inr (Returned Qnil, calls @ [end_of_session],
                                p1\<lparr>handle := None, closed := closed p1 @ [h]\<rparr>))
                    else Inr (Returned Qnil, calls @ [end_of_session], p1))))"

section \<open>Auxiliary notions for the proofs and the examples\<close>

text \<open>
  What every step of the reader leaves alone: the log of closed handles, the flags and
  fields it never assigns, the presence of the handle and what the handle has sent; the
  child's scripts only get shorter.
\<close>

definition reads_on :: "'j json_rpc_state \<Rightarrow> 'j json_rpc_state \<Rightarrow> bool" where
  "reads_on p p' \<longleftrightarrow>
     script_size p' \<le> script_size p \<and> closed p' = closed p \<and>
     cancel_send p' = cancel_send p \<and> pid p' = pid p \<and> message p' = message p \<and>
     error p' = error p \<and> done' p' = done' p \<and>
     (case handle p of
        None \<Rightarrow> handle p' = None
      | Some h \<Rightarrow>
          (case handle p' of
             None \<Rightarrow> False
           | Some h' \<Rightarrow> sent h' = sent h \<and> cancels h' = cancels h \<and> ssp_pid h' = ssp_pid h))"

text \<open>The same, for steps that may also set \<open>done\<close>, \<open>message\<close> and \<open>error\<close>.\<close>

definition session_on :: "'j json_rpc_state \<Rightarrow> 'j json_rpc_state \<Rightarrow> bool" where
  "session_on p p' \<longleftrightarrow>
     script_size p' \<le> script_size p \<and> closed p' = closed p \<and>
     cancel_send p' = cancel_send p \<and> pid p' = pid p \<and>
     (case handle p of
        None \<Rightarrow> handle p' = None
      | Some h \<Rightarrow>
          (case handle p' of
             None \<Rightarrow> False
           | Some h' \<Rightarrow> sent h' = sent h \<and> cancels h' = cancels h \<and> ssp_pid h' = ssp_pid h))"

text \<open>
  What the loop of \<^verbatim>\<open>json-rpc\<close> may do to the list of handler calls: it keeps the calls it
  found and adds calls whose third argument is \<open>nil\<close>.
\<close>

definition loop_adds :: "delivery list \<Rightarrow> delivery list \<Rightarrow> bool" where
  "loop_adds calls calls' \<longleftrightarrow>
     (\<exists>new. calls' = calls @ new \<and> list_all (\<lambda>d. snd (snd d) = Qnil) new)"

text \<open>
  A JSON library restricted to scalars, for the example runs: the values, whether they are
  objects from \<^verbatim>\<open>malloc\<close> (\<^verbatim>\<open>json_true ()\<close>, \<^verbatim>\<open>json_false ()\<close> and \<^verbatim>\<open>json_null ()\<close> return
  static objects, \<^verbatim>\<open>json_integer\<close> allocates), and \<^verbatim>\<open>json_to_lisp\<close> on them
  (\<^verbatim>\<open>JSON_NULL\<close>, \<^verbatim>\<open>JSON_FALSE\<close>, \<^verbatim>\<open>JSON_TRUE\<close>, \<^verbatim>\<open>JSON_INTEGER\<close>), which does not signal there.
\<close>

datatype json_t = JSON_NULL | JSON_FALSE | JSON_TRUE | JSON_INTEGER int

fun scalar_on_heap :: "json_t \<Rightarrow> bool" where
  "scalar_on_heap (JSON_INTEGER i) = True"
| "scalar_on_heap _ = False"

fun scalar_to_lisp :: "json_t \<Rightarrow> json_configuration \<Rightarrow> lisp_error + Lisp_Object" where
  "scalar_to_lisp JSON_NULL conf = Inr (null_object conf)"
| "scalar_to_lisp JSON_FALSE conf = Inr (false_object conf)"
| "scalar_to_lisp JSON_TRUE conf = Inr Qt"
| "scalar_to_lisp (JSON_INTEGER i) conf = Inr (Fixnum i)"

text \<open>
  The decoder of the example runs.  It stands for \<^verbatim>\<open>json_loads\<close> on the only texts the
  examples hand to it: the literals \<^verbatim>\<open>true\<close>, \<^verbatim>\<open>false\<close> and \<^verbatim>\<open>null\<close>, a run of decimal digits,
  the empty text (the JSON library reports a premature end of input) and a cut-off literal
  (invalid syntax).
\<close>

definition premature_end :: json_error_t where
  "premature_end =
     \<lparr>line = 1, column = 0, position = 0, source = ''<string>'',
      error_text = ''unexpected token near end of file'',
      code = json_error_premature_end_of_input\<rparr>"

definition invalid_token :: json_error_t where
  "invalid_token =
     \<lparr>line = 1, column = 1, position = 1, source = ''<string>'',
      error_text = ''invalid token'', code = json_error_invalid_syntax\<rparr>"

definition json_loads_literal :: "string \<Rightarrow> json_error_t + json_t" where
  "json_loads_literal s =
     (if s = ''true'' then Inr JSON_TRUE
      else if s = ''false'' then Inr JSON_FALSE
      else if s = ''null'' then Inr JSON_NULL
      else if s = [] then Inl premature_end
      else if list_all isdigit s then Inr (JSON_INTEGER (strtol_digits 0 s))
      else Inl invalid_token)"

text \<open>The library of the example runs; allocations below 2 GiB are served.\<close>

definition scalars :: "json_t library" where
  "scalars =
     \<lparr>json_loads = json_loads_literal, json_to_lisp = scalar_to_lisp,
      json_on_heap = scalar_on_heap, malloc = (\<lambda>n. n < 2 ^ 31)\<rparr>"

text \<open>A handler that returns from every call.\<close>

definition returning :: handler where
  "returning calls d = None"

text \<open>A child that writes the given bytes to its stdout, each \<^verbatim>\<open>recv\<close> returning one of them.\<close>

definition byte_by_byte :: "string \<Rightarrow> recv_result list" where
  "byte_by_byte bytes = map (\<lambda>c. \<lparr>rr_res = 1, rr_out = [c], rr_err = []\<rparr>) bytes"

text \<open>
  A handle with the given scripts that has not been used yet, and a freshly connected
  session on it whose memory happened to be zero.
\<close>

definition child :: "recv_result list \<Rightarrow> bool list \<Rightarrow> SSP_Handle" where
  "child recvs alives =
     \<lparr>recv_script = recvs, alive_script = alives, sent = [], cancels = 0, ssp_pid = 4711\<rparr>"

definition zeroed_memory :: "'j json_rpc_state" where
  "zeroed_memory =
     \<lparr>handle = None, message = None,
      error = \<lparr>line = 0, column = 0, position = 0, source = [], error_text = [],
               code = json_error_premature_end_of_input\<rparr>,
      done' = False, pid = 0, cancel_send = False,
      error_buffer = replicate (ERROR_BUFFER_SIZE + 1) NUL, error_buffer_read = 0,
      closed = []\<rparr>"

definition session :: "recv_result list \<Rightarrow> bool list \<Rightarrow> json_t json_rpc_state" where
  "session recvs alives = json_rpc_connection_state (child recvs alives) zeroed_memory"

text \<open>The handler calls of a finished run of \<^verbatim>\<open>json-rpc\<close>, and the state it leaves.\<close>

definition handler_calls :: "fault + ('x \<times> delivery list \<times> 's) \<Rightarrow> delivery list option" where
  "handler_calls r = (case r of Inl _ \<Rightarrow> None | Inr (_, ds, _) \<Rightarrow> Some ds)"

definition final_state :: "fault + ('x \<times> delivery list \<times> 's) \<Rightarrow> 's option" where
  "final_state r = (case r of Inl _ \<Rightarrow> None | Inr (_, _, s) \<Rightarrow> Some s)"

text \<open>
  The text \<^verbatim>\<open>{"id":1,"method":"ping"}\<close>: what \<^verbatim>\<open>json_dumps\<close> with \<^verbatim>\<open>JSON_COMPACT\<close> returns for
  the object with the members \<^verbatim>\<open>id\<close> = 1 and \<^verbatim>\<open>method\<close> = \<^verbatim>\<open>"ping"\<close>.
\<close>

definition ping :: string where
  "ping = ''{\"id\":1,\"method\":\"ping\"}''"

text \<open>
  A freshly connected session for the examples of the send path.  There a message is
  given as the text \<^verbatim>\<open>json_dumps\<close> returns for it, so \<^verbatim>\<open>json_dumps\<close> is the identity.
\<close>

definition sender :: "string json_rpc_state" where
  "sender = json_rpc_connection_state (child [] [True]) zeroed_memory"

text \<open>
  Diagnostic output that fills the error buffer in one \<^verbatim>\<open>recv\<close>: half a buffer of \<^verbatim>\<open>A\<close>, then
  a NUL byte and \<^verbatim>\<open>B\<close> up to the capacity.
\<close>

definition half :: nat where
  "half = ERROR_BUFFER_SIZE div 2"

definition noisy_stderr :: string where
  "noisy_stderr = replicate half (CHR ''A'') @ NUL # replicate (half - 1) (CHR ''B'')"

text \<open>A handler that signals from every call.\<close>

definition refusing :: handler where
  "refusing calls d = Some (Signal Qerror (Flist [String ''refused'']))"

section \<open>Keyword arguments: the first occurrence decides\<close>

declare json_parse_args_loop.simps [simp del]

lemma json_parse_args_loop_unfold:
  "0 < i \<Longrightarrow>
   json_parse_args_loop i args conf p =
     (case parse_pair p (args ! (i - 2)) (args ! (i - 1)) conf of
        Inl e \<Rightarrow> Inl e
      | Inr c \<Rightarrow> json_parse_args_loop (i - 2) args c p)"
  by (subst json_parse_args_loop.simps) (simp add: parse_pair_def Let_def)

lemma json_parse_args_loop_0: "json_parse_args_loop 0 args conf p = Inr conf"
  by (subst json_parse_args_loop.simps) simp

lemma first_value_append2:
  "even (length xs) \<Longrightarrow>
   first_value k (xs @ [a, v]) =
     (case first_value k xs of Some w \<Rightarrow> Some w | None \<Rightarrow> if a = k then Some v else None)"
  by (induction k xs rule: first_value.induct) auto

lemma take_even_step:
  "Suc (Suc j) \<le> length args \<Longrightarrow>
   take (Suc (Suc j)) args = take j args @ [args ! j, args ! Suc j]"
  by (simp add: take_Suc_conv_app_nth)

lemma parse_pair_fields:
  assumes "parse_pair p k v conf = Inr c"
  shows "null_object c = (if k = QCnull_object then v else null_object conf)"
    and "false_object c = (if k = QCfalse_object then v else false_object conf)"
    and "object_type c = (if k = QCobject_type then object_type_of v else object_type conf)"
    and "array_type c = (if k = QCarray_type then array_type_of v else array_type conf)"
  using assms
  by (auto simp: parse_pair_def EQ_def object_type_of_def array_type_of_def split: if_splits)

lemma parse_pair_key:
  assumes "parse_pair p k v conf = Inr c"
  shows "k = QCnull_object \<or> k = QCfalse_object \<or> (p \<and> (k = QCobject_type \<or> k = QCarray_type))"
  using assms
  by (auto simp: parse_pair_def EQ_def split: if_splits)

lemma loop_first_wins:
  "2 * n \<le> length args \<Longrightarrow> json_parse_args_loop (2 * n) args conf p = Inr conf' \<Longrightarrow>
   conf' = first_wins (take (2 * n) args) conf"
proof (induction n arbitrary: conf)
  case 0
  then show ?case by (simp add: json_parse_args_loop_0 first_wins_def)
next
  case (Suc n)
  let ?k = "args ! (2 * n)" and ?v = "args ! Suc (2 * n)"
  from Suc.prems(2) obtain c where
    c: "parse_pair p ?k ?v conf = Inr c" and
    rest: "json_parse_args_loop (2 * n) args c p = Inr conf'"
    by (auto simp: json_parse_args_loop_unfold split: sum.splits)
  have ih: "conf' = first_wins (take (2 * n) args) c"
    using Suc.IH[OF _ rest] Suc.prems(1) by simp
  have tk: "take (2 * Suc n) args = take (2 * n) args @ [?k, ?v]"
    using take_even_step[of "2 * n" args] Suc.prems(1) by simp
  have ev: "even (length (take (2 * n) args))"
    using Suc.prems(1) by simp
  note f = parse_pair_fields[OF c] 
  show ?case
    using parse_pair_key[OF c]
    unfolding tk ih first_wins_def first_value_append2[OF ev] f
    by (auto split: option.splits)
qed

text \<open>
  Claim C10.  An argument list of odd length is rejected with \<^verbatim>\<open>wrong-type-argument plistp\<close>.
  Whenever \<^verbatim>\<open>json_parse_args\<close> accepts a list, every field of the resulting configuration is
  the one given by the earliest occurrence of its keyword (and the incoming value if the
  keyword does not occur): the loop runs from the back, so earlier pairs overwrite later ones.
\<close>

theorem json_parse_args_first_occurrence_wins:
  "(odd (length args) \<longrightarrow>
      json_parse_args args conf p = Inl (Wrong_type_argument Qplistp (Flist args))) \<and>
   (\<forall>conf'. json_parse_args args conf p = Inr conf' \<longrightarrow> conf' = first_wins args conf)"
proof (intro conjI allI impI)
  assume "odd (length args)"
  then show "json_parse_args args conf p = Inl (Wrong_type_argument Qplistp (Flist args))"
    by (simp add: json_parse_args_def odd_iff_mod_2_eq_one)
next
  fix conf'
  assume ok: "json_parse_args args conf p = Inr conf'"
  then have ev: "even (length args)"
    by (auto simp: json_parse_args_def split: if_splits)
  then obtain n where n: "length args = 2 * n" by (auto elim: evenE)
  with ok have "json_parse_args_loop (2 * n) args conf p = Inr conf'"
    by (simp add: json_parse_args_def)
  from loop_first_wins[OF _ this] n show "conf' = first_wins args conf" by simp
qed

theorem json_parse_args_first_occurrence_wins_witness:
  "odd (length [QCnull_object]) \<and>
   json_parse_args [QCnull_object] default_configuration True =
     Inl (Wrong_type_argument Qplistp (Flist [QCnull_object])) \<and>
   json_parse_args [QCnull_object, Fixnum 1, QCobject_type, Qalist, QCnull_object, Fixnum 2,
       QCobject_type, Qplist] default_configuration True =
     Inr \<lparr>object_type = json_object_alist, array_type = json_array_array,
          null_object = Fixnum 1, false_object = QCfalse\<rparr>"
proof -
  let ?args = "[QCnull_object, Fixnum 1, QCobject_type, Qalist, QCnull_object, Fixnum 2,
       QCobject_type, Qplist]"
  have "\<exists>c. json_parse_args ?args default_configuration True = Inr c"
    by (simp add: json_parse_args_def json_parse_args_loop_unfold json_parse_args_loop_0
        parse_pair_def EQ_def)
  then obtain c where c: "json_parse_args ?args default_configuration True = Inr c" ..
  have "c = first_wins ?args default_configuration"
    using json_parse_args_first_occurrence_wins[of ?args default_configuration True] c by blast
  then have "c = \<lparr>object_type = json_object_alist, array_type = json_array_array,
          null_object = Fixnum 1, false_object = QCfalse\<rparr>"
    by (simp add: first_wins_def object_type_of_def default_configuration_def)
  with c show ?thesis
    using json_parse_args_first_occurrence_wins[of "[QCnull_object]" default_configuration True]
    by simp
qed

section \<open>What the reader leaves alone; termination of the dispatch loop\<close>

lemma reads_on_refl: "reads_on p p"
  by (simp add: reads_on_def split: option.splits)

lemma reads_on_trans: "reads_on p q \<Longrightarrow> reads_on q r \<Longrightarrow> reads_on p r"
  by (auto simp: reads_on_def split: option.splits)

lemma session_on_refl: "session_on p p"
  by (simp add: session_on_def split: option.splits)

lemma session_on_trans: "session_on p q \<Longrightarrow> session_on q r \<Longrightarrow> session_on p r"
  by (auto simp: session_on_def split: option.splits)

lemma reads_on_session_on: "reads_on p q \<Longrightarrow> session_on p q"
  by (auto simp: reads_on_def session_on_def split: option.splits)

lemma session_on_fields:
  "session_on p (p\<lparr>done' := d\<rparr>)" "session_on p (p\<lparr>message := m\<rparr>)"
  "session_on p (p\<lparr>message := m, error := e\<rparr>)"
  by (auto simp: session_on_def script_size_def split: option.splits)

lemma ssp_recv_facts:
  "ssp_recv h n m = (r, h1) \<Longrightarrow>
   length (recv_script h1) \<le> length (recv_script h) \<and> alive_script h1 = alive_script h \<and>
   sent h1 = sent h \<and> cancels h1 = cancels h \<and> ssp_pid h1 = ssp_pid h \<and>
   length (rr_out r) \<le> n \<and> length (rr_err r) \<le> m"
  by (auto simp: ssp_recv_def split: list.splits)

lemma capture_stderr_handle:
  "capture_stderr p err = Inr p' \<Longrightarrow> handle p' = handle p"
  by (auto simp: capture_stderr_def Let_def split: if_splits option.splits)

lemma capture_stderr_reads_on:
  "capture_stderr p err = Inr p' \<Longrightarrow> reads_on p p'"
  by (auto simp: capture_stderr_def reads_on_def script_size_def Let_def
      split: if_splits option.splits)

lemma recv_step_reads_on:
  assumes "handle p = Some h" "ssp_recv h n m = (r, h1)"
    "capture_stderr (p\<lparr>handle := Some h1\<rparr>) (rr_err r) = Inr p1"
  shows "reads_on p p1"
proof -
  have "reads_on p (p\<lparr>handle := Some h1\<rparr>)"
    using assms(1) ssp_recv_facts[OF assms(2)] by (auto simp: reads_on_def script_size_def)
  from reads_on_trans[OF this capture_stderr_reads_on[OF assms(3)]] show ?thesis .
qed

lemma alive_step_reads_on:
  assumes "handle p = Some h" "ssp_isalive h = (a, h2)"
  shows "reads_on p (p\<lparr>handle := Some h2\<rparr>)"
  using assms by (auto simp: reads_on_def script_size_def ssp_isalive_def split: list.splits)

lemma read_stdout_unfold:
  assumes "handle param = Some h"
    "ssp_recv h n (ERROR_BUFFER_SIZE - error_buffer_read param) = (r, h1)"
  shows "read_stdout param n =
     (case capture_stderr (param\<lparr>handle := Some h1\<rparr>) (rr_err r) of
        Inl f \<Rightarrow> Inl f
      | Inr p1 \<Rightarrow>
          if rr_out r \<noteq> [] then Inr (rr_out r, p1)
          else if rr_res r > 0 then read_stdout p1 n
          else (case ssp_isalive h1 of
                  (alive, h2) \<Rightarrow>
                    if alive then read_stdout (p1\<lparr>handle := Some h2\<rparr>) n
                    else Inr ([], p1\<lparr>handle := Some h2\<rparr>)))"
  using assms by (subst read_stdout.simps) (auto simp: Let_def split: sum.splits)

lemma read_stdout_null: "handle param = None \<Longrightarrow> read_stdout param n = Inl Null_dereference"
  by (subst read_stdout.simps) simp

lemma read_stdout_reads_on:
  "read_stdout p n = Inr (bs, p') \<Longrightarrow> reads_on p p'"
proof (induction p n arbitrary: bs p' rule: read_stdout.induct)
  case (1 param size')
  from "1.prems" obtain h where h: "handle param = Some h"
    by (cases "handle param") (auto simp: read_stdout_null)
  obtain r h1 where rh: "ssp_recv h size' (ERROR_BUFFER_SIZE - error_buffer_read param) = (r, h1)"
    by (cases "ssp_recv h size' (ERROR_BUFFER_SIZE - error_buffer_read param)")
  note unf = read_stdout_unfold[OF h rh]
  from "1.prems" obtain p1 where
    p1: "capture_stderr (param\<lparr>handle := Some h1\<rparr>) (rr_err r) = Inr p1"
    by (auto simp: unf split: sum.splits)
  note s1 = recv_step_reads_on[OF h rh p1]
  obtain alive h2 where al: "ssp_isalive h1 = (alive, h2)" by (cases "ssp_isalive h1")
  have hp1: "handle p1 = Some h1"
    using capture_stderr_handle[OF p1] by simp
  note s2 = alive_step_reads_on[OF hp1 al]
  show ?case
  proof (cases "rr_out r \<noteq> []")
    case True
    with "1.prems" p1 have "p' = p1" by (simp add: unf)
    with s1 show ?thesis by simp
  next
    case out: False
    show ?thesis
    proof (cases "0 < rr_res r")
      case True
      with "1.prems" p1 out have "read_stdout p1 size' = Inr (bs, p')" by (simp add: unf)
      from "1.IH"(1)[OF h refl rh[symmetric] refl p1 out True this] s1
      show ?thesis by (rule reads_on_trans[rotated])
    next
      case res: False
      show ?thesis
      proof (cases alive)
        case True
        with "1.prems" p1 out res al
        have "read_stdout (p1\<lparr>handle := Some h2\<rparr>) size' = Inr (bs, p')" by (simp add: unf)
        from "1.IH"(2)[OF h refl rh[symmetric] refl p1 out res al[symmetric] refl True this]
        have "reads_on (p1\<lparr>handle := Some h2\<rparr>) p'" .
        with s1 s2 show ?thesis by (blast intro: reads_on_trans)
      next
        case False
        with "1.prems" p1 out res al have "p' = p1\<lparr>handle := Some h2\<rparr>" by (simp add: unf)
        with s1 s2 show ?thesis by (blast intro: reads_on_trans)
      qed
    qed
  qed
qed

lemma read_stdout_length:
  "read_stdout p n = Inr (bs, p') \<Longrightarrow> length bs \<le> n"
proof (induction p n arbitrary: bs p' rule: read_stdout.induct)
  case (1 param size')
  from "1.prems" obtain h where h: "handle param = Some h"
    by (cases "handle param") (auto simp: read_stdout_null)
  obtain r h1 where rh: "ssp_recv h size' (ERROR_BUFFER_SIZE - error_buffer_read param) = (r, h1)"
    by (cases "ssp_recv h size' (ERROR_BUFFER_SIZE - error_buffer_read param)")
  note unf = read_stdout_unfold[OF h rh]
  from "1.prems" obtain p1 where
    p1: "capture_stderr (param\<lparr>handle := Some h1\<rparr>) (rr_err r) = Inr p1"
    by (auto simp: unf split: sum.splits)
  obtain alive h2 where al: "ssp_isalive h1 = (alive, h2)" by (cases "ssp_isalive h1")
  have len: "length (rr_out r) \<le> size'"
    using ssp_recv_facts[OF rh] by simp
  show ?case
  proof (cases "rr_out r \<noteq> []")
    case True
    with "1.prems" p1 have "bs = rr_out r" by (simp add: unf)
    with len show ?thesis by simp
  next
    case out: False
    show ?thesis
    proof (cases "0 < rr_res r")
      case True
      with "1.prems" p1 out have "read_stdout p1 size' = Inr (bs, p')" by (simp add: unf)
      from "1.IH"(1)[OF h refl rh[symmetric] refl p1 out True this] show ?thesis .
    next
      case res: False
      show ?thesis
      proof (cases alive)
        case True
        with "1.prems" p1 out res al
        have "read_stdout (p1\<lparr>handle := Some h2\<rparr>) size' = Inr (bs, p')" by (simp add: unf)
        from "1.IH"(2)[OF h refl rh[symmetric] refl p1 out res al[symmetric] refl True this]
        show ?thesis .
      next
        case False
        with "1.prems" p1 out res al have "bs = []" by (simp add: unf)
        then show ?thesis by simp
      qed
    qed
  qed
qed

lemma read_until_unfold:
  "read_until param needle output =
     (if strstr (c_str output) needle then Inr (True, output, param)
      else if BUFFER_SIZE \<le> length output then Inl Buffer_overrun
      else (case read_stdout param 1 of
              Inl f \<Rightarrow> Inl f
            | Inr (bytes, p1) \<Rightarrow>
                if bytes = [] then Inr (False, output, p1)
                else read_until p1 needle (output @ bytes)))"
  by (subst read_until.simps) (auto split: sum.splits)

lemma read_until_reads_on:
  "read_until p needle out = Inr (found, out', p') \<Longrightarrow> reads_on p p'"
proof (induction p needle out arbitrary: found out' p' rule: read_until.induct)
  case (1 param needle outp)
  show ?case
  proof (cases "strstr (c_str outp) needle")
    case True
    with "1.prems" show ?thesis by (simp add: read_until_unfold[of param] reads_on_refl)
  next
    case nf: False
    with "1.prems" have small: "\<not> BUFFER_SIZE \<le> length outp"
      by (auto simp: read_until_unfold[of param] split: if_splits)
    from "1.prems" nf small obtain bytes p1 where
      rs: "read_stdout param 1 = Inr (bytes, p1)"
      by (auto simp: read_until_unfold[of param] split: sum.splits)
    note r1 = read_stdout_reads_on[OF rs]
    show ?thesis
    proof (cases "bytes = []")
      case True
      with "1.prems" nf small rs have "p' = p1" by (simp add: read_until_unfold[of param])
      with r1 show ?thesis by simp
    next
      case False
      with "1.prems" nf small rs
      have "read_until p1 needle (outp @ bytes) = Inr (found, out', p')"
        by (simp add: read_until_unfold[of param])
      moreover have "length bytes \<noteq> 0" using False by simp
      ultimately have "reads_on p1 p'"
        using "1.IH"[OF nf small rs refl] by blast
      with r1 show ?thesis by (auto intro: reads_on_trans)
    qed
  qed
qed

lemma read_payload_unfold:
  "read_payload param buffer content_length has_to_read msg =
     (if has_to_read > 0 then
        (case read_stdout param has_to_read of
           Inl f \<Rightarrow> Inl f
         | Inr (bytes, p1) \<Rightarrow>
             if bytes \<noteq> [] \<and> buffer = None then Inl Null_dereference
             else if bytes \<noteq> [] \<and>
                     the buffer < (content_length - has_to_read) + length bytes
                  then Inl Buffer_overrun
             else if length bytes > INT_MAX then Inl Integer_overflow
             else if int_of_size_t (length bytes) = 0 then Inr (msg, p1\<lparr>done' := True\<rparr>)
             else read_payload p1 buffer content_length
                    (has_to_read - nat (int_of_size_t (length bytes))) (msg @ bytes))
      else Inr (msg, param))"
  by (subst read_payload.simps) (auto simp: Let_def split: sum.splits)

lemma int_of_size_t_small: "n \<le> INT_MAX \<Longrightarrow> int_of_size_t n = int n"
  by (simp add: int_of_size_t_def INT_MAX_def Let_def)

text \<open>One round of the payload loop that returns: what was read and what follows.\<close>

lemma read_payload_round:
  assumes "read_payload param buffer n has_to_read msg = Inr (msg', p')" "0 < has_to_read"
  shows "\<exists>bytes p1. read_stdout param has_to_read = Inr (bytes, p1) \<and>
           length bytes \<le> INT_MAX \<and>
           (bytes = [] \<longrightarrow> msg' = msg \<and> p' = p1\<lparr>done' := True\<rparr>) \<and>
           (bytes \<noteq> [] \<longrightarrow>
              read_payload p1 buffer n (has_to_read - length bytes) (msg @ bytes) = Inr (msg', p') \<and>
              (\<exists>capacity. buffer = Some capacity \<and>
                 (n - has_to_read) + length bytes \<le> capacity))"
proof -
  from assms obtain bytes p1 where
    rs: "read_stdout param has_to_read = Inr (bytes, p1)"
    by (auto simp: read_payload_unfold[of param] split: sum.splits)
  from assms rs have small: "length bytes \<le> INT_MAX"
    by (auto simp: read_payload_unfold[of param] split: if_splits)
  then have conv: "int_of_size_t (length bytes) = int (length bytes)"
    by (rule int_of_size_t_small)
  have a: "msg' = msg \<and> p' = p1\<lparr>done' := True\<rparr>" if "bytes = []"
    using assms rs that by (simp add: read_payload_unfold[of param] int_of_size_t_def)
  have b: "read_payload p1 buffer n (has_to_read - length bytes) (msg @ bytes) = Inr (msg', p')"
    and c: "\<exists>capacity. buffer = Some capacity \<and> (n - has_to_read) + length bytes \<le> capacity"
    if "bytes \<noteq> []"
    using assms rs that small conv
    by (auto simp: read_payload_unfold[of param] split: if_splits)
  from rs small a b c show ?thesis by blast
qed

lemma read_payload_reads_on:
  "read_payload p buffer n has_to_read msg = Inr (msg', p') \<Longrightarrow>
   reads_on p (p'\<lparr>done' := done' p\<rparr>)"
proof (induction has_to_read arbitrary: p msg rule: less_induct)
  case (less has_to_read)
  show ?case
  proof (cases "0 < has_to_read")
    case False
    with less.prems show ?thesis by (simp add: read_payload_unfold[of p] reads_on_refl)
  next
    case True
    from read_payload_round[OF less.prems True] obtain bytes p1 where
      rs: "read_stdout p has_to_read = Inr (bytes, p1)"
      and e: "bytes = [] \<Longrightarrow> msg' = msg \<and> p' = p1\<lparr>done' := True\<rparr>"
      and ne: "bytes \<noteq> [] \<Longrightarrow>
           read_payload p1 buffer n (has_to_read - length bytes) (msg @ bytes) = Inr (msg', p')"
      by blast
    note r1 = read_stdout_reads_on[OF rs]
    have d1: "done' p1 = done' p" using r1 by (simp add: reads_on_def)
    show ?thesis
    proof (cases "bytes = []")
      case True
      with e have "p'\<lparr>done' := done' p\<rparr> = p1" using d1 by simp
      with r1 show ?thesis by simp
    next
      case False
      then have "has_to_read - length bytes < has_to_read" using True by (cases bytes) auto
      from less.IH[OF this ne[OF False]] d1 r1 show ?thesis
        by (auto intro: reads_on_trans)
    qed
  qed
qed

lemma reads_on_done_session_on: "reads_on p (p'\<lparr>done' := d\<rparr>) \<Longrightarrow> session_on p p'"
  by (auto simp: reads_on_def session_on_def script_size_def split: option.splits)

lemma read_payload_session_on:
  "read_payload p buffer n has_to_read msg = Inr (msg', p') \<Longrightarrow> session_on p p'"
  by (rule reads_on_done_session_on[OF read_payload_reads_on])

text \<open>What \<^verbatim>\<open>json_rpc_callback\<close> does once the two header scans have returned.\<close>

lemma json_rpc_callback_no_marker:
  "read_until p ''Content-Length:'' [] = Inr (False, d, p1) \<Longrightarrow>
   json_rpc_callback lib p = Inr (p1\<lparr>done' := True\<rparr>)"
  by (simp add: json_rpc_callback_def)

lemma json_rpc_callback_no_delimiter:
  "read_until p ''Content-Length:'' [] = Inr (True, d, p1) \<Longrightarrow>
   read_until p1 [CR, LF, CR, LF] [] = Inr (False, data, p2) \<Longrightarrow>
   json_rpc_callback lib p = Inr (p2\<lparr>done' := True\<rparr>)"
  by (simp add: json_rpc_callback_def)

lemma json_rpc_callback_payload:
  "read_until p ''Content-Length:'' [] = Inr (True, d, p1) \<Longrightarrow>
   read_until p1 [CR, LF, CR, LF] [] = Inr (True, data, p2) \<Longrightarrow>
   json_rpc_callback lib p =
     (case read_payload p2 (msg_buffer lib (size_t_of_long (strtol (c_str data))))
             (size_t_of_long (strtol (c_str data))) (size_t_of_long (strtol (c_str data))) [] of
        Inl f \<Rightarrow> Inl f
      | Inr (msg, p3) \<Rightarrow>
          if done' p3 then Inr p3
          else (case msg_buffer lib (size_t_of_long (strtol (c_str data))) of
                  None \<Rightarrow> Inl Null_dereference
                | Some capacity \<Rightarrow>
                    if capacity \<le> size_t_of_long (strtol (c_str data)) then Inl Buffer_overrun
                    else (case json_loads lib (c_str msg) of
                            Inr j \<Rightarrow> Inr (p3\<lparr>message := Some j\<rparr>)
                          | Inl e \<Rightarrow> Inr (p3\<lparr>message := None, error := e\<rparr>))))"
  by (auto simp: json_rpc_callback_def Let_def split: sum.splits option.splits)

lemma json_rpc_callback_session_on:
  assumes "json_rpc_callback lib p = Inr p'"
  shows "session_on p p'"
proof -
  from assms obtain found d1 p1 where
    r1: "read_until p ''Content-Length:'' [] = Inr (found, d1, p1)"
    by (auto simp: json_rpc_callback_def split: sum.splits)
  note s1 = reads_on_session_on[OF read_until_reads_on[OF r1]]
  show ?thesis
  proof (cases found)
    case False
    with assms r1 have "p' = p1\<lparr>done' := True\<rparr>" by (simp add: json_rpc_callback_no_marker)
    with s1 session_on_fields(1)[of p1 True] show ?thesis by (auto intro: session_on_trans)
  next
    case f1: True
    with assms r1 obtain found' data p2 where
      r2: "read_until p1 [CR, LF, CR, LF] [] = Inr (found', data, p2)"
      by (auto simp: json_rpc_callback_def split: sum.splits)
    have s2: "session_on p p2"
      using s1 reads_on_session_on[OF read_until_reads_on[OF r2]] by (rule session_on_trans)
    show ?thesis
    proof (cases found')
      case False
      with assms r1 f1 r2 have "p' = p2\<lparr>done' := True\<rparr>"
        by (simp add: json_rpc_callback_no_delimiter)
      with s2 session_on_fields(1)[of p2 True] show ?thesis by (auto intro: session_on_trans)
    next
      case f2: True
      let ?n = "size_t_of_long (strtol (c_str data))"
      from r1 f1 have r1': "read_until p ''Content-Length:'' [] = Inr (True, d1, p1)" by simp
      from r2 f2 have r2': "read_until p1 [CR, LF, CR, LF] [] = Inr (True, data, p2)" by simp
      note unf = json_rpc_callback_payload[OF r1' r2', of lib]
      from assms obtain msg p3 where
        r3: "read_payload p2 (msg_buffer lib ?n) ?n ?n [] = Inr (msg, p3)"
        by (auto simp: unf split: sum.splits)
      have s3: "session_on p p3"
        using s2 read_payload_session_on[OF r3] by (rule session_on_trans)
      from assms r3
      have "p' = p3 \<or> (\<exists>j. p' = p3\<lparr>message := Some j\<rparr>) \<or>
            (\<exists>e. p' = p3\<lparr>message := None, error := e\<rparr>)"
        by (auto simp: unf split: sum.splits if_splits option.splits)
      with s3 session_on_fields(2,3)[of p3] show ?thesis
        by (auto intro: session_on_trans)
    qed
  qed
qed

lemma alive_step_decreases:
  assumes "handle p = Some h" "ssp_isalive h = (True, h1)"
  shows "script_size (p\<lparr>handle := Some h1\<rparr>) < script_size p"
  using assms by (auto simp: script_size_def ssp_isalive_def split: list.splits)

lemma session_on_script: "session_on p p' \<Longrightarrow> script_size p' \<le> script_size p"
  by (simp add: session_on_def)

lemma frame_read_decreases:
  assumes "json_rpc_callback lib (param\<lparr>handle := Some h1\<rparr>) = Inr p1"
    and "handle param = Some h" "(True, h1) = ssp_isalive h"
  shows "script_size p1 < script_size param"
    and "script_size (p1\<lparr>message := m\<rparr>) < script_size param"
proof -
  show "script_size p1 < script_size param"
    using session_on_script[OF json_rpc_callback_session_on[OF assms(1)]]
      alive_step_decreases[OF assms(2) assms(3)[symmetric]] by simp
  then show "script_size (p1\<lparr>message := m\<rparr>) < script_size param"
    by (simp add: script_size_def)
qed

termination Fjson_rpc_loop
  by (relation "measure (\<lambda>(_, _, _, _, param). script_size param)")
    (auto intro: frame_read_decreases)

declare Fjson_rpc_loop.simps [simp del]

section \<open>The dispatch loop, one iteration at a time\<close>

lemma Fjson_rpc_loop_done:
  "done' p \<Longrightarrow> Fjson_rpc_loop lib callback conf calls p = Inr (None, calls, p)"
  by (subst Fjson_rpc_loop.simps) simp

lemma Fjson_rpc_loop_null:
  "\<not> done' p \<Longrightarrow> handle p = None \<Longrightarrow>
   Fjson_rpc_loop lib callback conf calls p = Inl Null_dereference"
  by (subst Fjson_rpc_loop.simps) simp

lemma Fjson_rpc_loop_dead:
  "\<not> done' p \<Longrightarrow> handle p = Some h \<Longrightarrow> ssp_isalive h = (False, h1) \<Longrightarrow>
   Fjson_rpc_loop lib callback conf calls p = Inr (None, calls, p\<lparr>handle := Some h1\<rparr>)"
  by (subst Fjson_rpc_loop.simps) simp

lemma Fjson_rpc_loop_fault:
  assumes "\<not> done' p" "handle p = Some h" "ssp_isalive h = (True, h1)"
    "json_rpc_callback lib (p\<lparr>handle := Some h1\<rparr>) = Inl f"
  shows "Fjson_rpc_loop lib callback conf calls p = Inl f"
  using assms by (subst Fjson_rpc_loop.simps) simp

lemma Fjson_rpc_loop_ended:
  assumes "\<not> done' p" "handle p = Some h" "ssp_isalive h = (True, h1)"
    "json_rpc_callback lib (p\<lparr>handle := Some h1\<rparr>) = Inr p1" "done' p1"
  shows "Fjson_rpc_loop lib callback conf calls p = Inr (None, calls, p1)"
  using assms by (subst Fjson_rpc_loop.simps) (simp add: Fjson_rpc_loop_done)

lemma Fjson_rpc_loop_error:
  assumes "\<not> done' p" "handle p = Some h" "ssp_isalive h = (True, h1)"
    "json_rpc_callback lib (p\<lparr>handle := Some h1\<rparr>) = Inr p1" "\<not> done' p1" "message p1 = None"
  shows "Fjson_rpc_loop lib callback conf calls p =
     (case callback calls (Qnil, get_json_parse_error (error p1), Qnil) of
        Some e \<Rightarrow> Inr (Some e, calls @ [(Qnil, get_json_parse_error (error p1), Qnil)], p1)
      | None \<Rightarrow>
          Fjson_rpc_loop lib callback conf
            (calls @ [(Qnil, get_json_parse_error (error p1), Qnil)]) p1)"
  using assms by (subst Fjson_rpc_loop.simps) (simp add: Let_def)

lemma Fjson_rpc_loop_message:
  assumes "\<not> done' p" "handle p = Some h" "ssp_isalive h = (True, h1)"
    "json_rpc_callback lib (p\<lparr>handle := Some h1\<rparr>) = Inr p1" "\<not> done' p1"
    "message p1 = Some m"
  shows "Fjson_rpc_loop lib callback conf calls p =
     (case json_to_lisp lib m conf of
        Inl e \<Rightarrow> Inr (Some e, calls, p1)
      | Inr msg \<Rightarrow>
          if \<not> json_on_heap lib m then Inl Invalid_free
          else (case callback calls (msg, Qnil, Qnil) of
                  Some e \<Rightarrow> Inr (Some e, calls @ [(msg, Qnil, Qnil)], p1\<lparr>message := None\<rparr>)
                | None \<Rightarrow>
                    Fjson_rpc_loop lib callback conf (calls @ [(msg, Qnil, Qnil)])
                      (p1\<lparr>message := None\<rparr>)))"
  using assms by (subst Fjson_rpc_loop.simps) simp

lemma session_on_message: "session_on (p\<lparr>message := m\<rparr>) q \<Longrightarrow> session_on p q"
  by (auto simp: session_on_def script_size_def split: option.splits)

lemma session_on_alive:
  "handle p = Some h \<Longrightarrow> ssp_isalive h = (a, h1) \<Longrightarrow> session_on p (p\<lparr>handle := Some h1\<rparr>)"
  by (rule reads_on_session_on[OF alive_step_reads_on])

lemma loop_adds_refl: "loop_adds calls calls"
  by (simp add: loop_adds_def)

lemma loop_adds_step: "snd (snd d) = Qnil \<Longrightarrow> loop_adds calls (calls @ [d])"
  by (simp add: loop_adds_def)

lemma loop_adds_trans: "loop_adds a b \<Longrightarrow> loop_adds b c \<Longrightarrow> loop_adds a c"
  by (auto simp: loop_adds_def)

text \<open>
  What a run of the loop that does not fault has done: the session is as it was but for
  what the reader changes; the handler calls it found are still there, and every call it
  added has \<open>nil\<close> as its third argument; if it was left by a signal, that signal came from
  the handler or from \<open>json_to_lisp\<close>.
\<close>

lemma Fjson_rpc_loop_calls:
  "Fjson_rpc_loop lib callback conf calls p = Inr (x, calls', p') \<Longrightarrow>
   session_on p p' \<and> loop_adds calls calls' \<and>
   (\<forall>e. x = Some e \<longrightarrow>
      (\<exists>cs d. callback cs d = Some e) \<or> (\<exists>m c. json_to_lisp lib m c = Inl e))"
proof (induction "script_size p" arbitrary: p calls rule: less_induct)
  case less
  show ?case
  proof (cases "done' p")
    case True
    with less.prems show ?thesis
      by (simp add: Fjson_rpc_loop_done session_on_refl loop_adds_refl)
  next
    case nd: False
    with less.prems obtain h where h: "handle p = Some h"
      by (cases "handle p") (auto simp: Fjson_rpc_loop_null)
    obtain alive h1 where al: "ssp_isalive h = (alive, h1)" by (cases "ssp_isalive h")
    note s0 = session_on_alive[OF h al]
    show ?thesis
    proof (cases alive)
      case False
      with less.prems nd h al s0 show ?thesis
        by (simp add: Fjson_rpc_loop_dead loop_adds_refl)
    next
      case True
      with al have al: "ssp_isalive h = (True, h1)" by simp
      from less.prems obtain p1 where
        cb: "json_rpc_callback lib (p\<lparr>handle := Some h1\<rparr>) = Inr p1"
        by (cases "json_rpc_callback lib (p\<lparr>handle := Some h1\<rparr>)")
          (auto simp: Fjson_rpc_loop_fault[OF nd h al])
      note s1 = json_rpc_callback_session_on[OF cb]
      have s01: "session_on p p1" using s0 s1 by (rule session_on_trans)
      have lt: "script_size p1 < script_size p"
        using session_on_script[OF s1] alive_step_decreases[OF h al] by simp
      show ?thesis
      proof (cases "done' p1")
        case True
        with less.prems Fjson_rpc_loop_ended[OF nd h al cb, of callback conf calls] s01
        show ?thesis by (simp add: loop_adds_refl)
      next
        case nd1: False
        show ?thesis
        proof (cases "message p1")
          case None
          let ?d = "(Qnil, get_json_parse_error (error p1), Qnil)"
          note step = Fjson_rpc_loop_error[OF nd h al cb nd1 None, of callback conf calls]
          have add: "loop_adds calls (calls @ [?d])" by (rule loop_adds_step) simp
          show ?thesis
          proof (cases "callback calls ?d")
            case (Some e)
            with less.prems step s01 add show ?thesis by auto
          next
            case none: None
            with less.prems step
            have rest: "Fjson_rpc_loop lib callback conf (calls @ [?d]) p1 = Inr (x, calls', p')"
              by simp
            from less.hyps[OF lt rest] s01 add show ?thesis
              by (auto intro: session_on_trans loop_adds_trans)
          qed
        next
          case (Some m)
          note step = Fjson_rpc_loop_message[OF nd h al cb nd1 Some, of callback conf calls]
          show ?thesis
          proof (cases "json_to_lisp lib m conf")
            case (Inl e)
            with less.prems step s01 show ?thesis
              by (auto simp: loop_adds_refl)
          next
            case (Inr msg)
            let ?d = "(msg, Qnil, Qnil)"
            let ?p = "p1\<lparr>message := None\<rparr>"
            have add: "loop_adds calls (calls @ [?d])" by (rule loop_adds_step) simp
            have s02: "session_on p ?p"
              using s01 session_on_fields(2)[of p1 None] by (rule session_on_trans)
            from less.prems step Inr have heap: "json_on_heap lib m"
              by (auto split: if_splits)
            show ?thesis
            proof (cases "callback calls ?d")
              case (Some e)
              with less.prems step Inr heap s02 add show ?thesis by auto
            next
              case none: None
              with less.prems step Inr heap
              have rest: "Fjson_rpc_loop lib callback conf (calls @ [?d]) ?p = Inr (x, calls', p')"
                by simp
              have "script_size ?p < script_size p"
                using lt by (simp add: script_size_def)
              from less.hyps[OF this rest] s02 add show ?thesis
                by (auto intro: session_on_trans loop_adds_trans)
            qed
          qed
        qed
      qed
    qed
  qed
qed

lemma session_on_handle:
  "session_on p p' \<Longrightarrow> handle p = Some h \<Longrightarrow> \<exists>h'. handle p' = Some h'"
  by (auto simp: session_on_def split: option.splits)

lemma Fjson_rpc_rejected:
  "json_parse_args args default_configuration True = Inl e \<Longrightarrow>
   Fjson_rpc lib callback locked args p = Inr (Signalled e, [], p)"
  by (simp add: Fjson_rpc_def)

lemma Fjson_rpc_signalled:
  assumes "json_parse_args args default_configuration True = Inr conf"
    "Fjson_rpc_loop lib callback conf [] p = Inr (Some e, calls, p1)"
  shows "Fjson_rpc lib callback locked args p = Inr (Signalled e, calls, p1)"
  using assms by (simp add: Fjson_rpc_def)

lemma Fjson_rpc_result:
  assumes "json_parse_args args default_configuration True = Inr conf"
    "Fjson_rpc_loop lib callback conf [] p = Inr (None, calls, p1)" "handle p1 = Some h1"
  shows "Fjson_rpc lib callback locked args p =
     (case callback calls end_of_session of
        Some e \<Rightarrow> Inr (Signalled e, calls @ [end_of_session], p1)
      | None \<Rightarrow>
          Inr (Returned Qnil, calls @ [end_of_session],
               if locked then p1\<lparr>handle := None, closed := closed p1 @ [h1]\<rparr> else p1))"
  using assms by (simp add: Fjson_rpc_def split: option.splits)

text \<open>The cases in which \<^verbatim>\<open>json-rpc\<close> does not fault.\<close>

lemma Fjson_rpc_cases:
  assumes "Fjson_rpc lib callback locked args p = Inr (ex, calls, p')"
  shows "(\<exists>e. json_parse_args args default_configuration True = Inl e \<and>
            ex = Signalled e \<and> calls = [] \<and> p' = p) \<or>
         (\<exists>conf e. json_parse_args args default_configuration True = Inr conf \<and>
            Fjson_rpc_loop lib callback conf [] p = Inr (Some e, calls, p') \<and> ex = Signalled e) \<or>
         (\<exists>conf front p1. json_parse_args args default_configuration True = Inr conf \<and>
            Fjson_rpc_loop lib callback conf [] p = Inr (None, front, p1) \<and>
            calls = front @ [end_of_session] \<and>
            ((\<exists>e. callback front end_of_session = Some e \<and> ex = Signalled e \<and> p' = p1) \<or>
             (callback front end_of_session = None \<and> ex = Returned Qnil \<and>
              (if locked
               then (\<exists>h1. handle p1 = Some h1 \<and>
                       p' = p1\<lparr>handle := None, closed := closed p1 @ [h1]\<rparr>)
               else p' = p1))))"
proof (cases "json_parse_args args default_configuration True")
  case (Inl e)
  with assms show ?thesis by (simp add: Fjson_rpc_def)
next
  case conf: (Inr conf)
  show ?thesis
  proof (cases "Fjson_rpc_loop lib callback conf [] p")
    case (Inl f)
    with assms conf show ?thesis by (simp add: Fjson_rpc_def)
  next
    case (Inr res)
    obtain x front p1 where res: "res = (x, front, p1)" by (cases res)
    with Inr have loop: "Fjson_rpc_loop lib callback conf [] p = Inr (x, front, p1)" by simp
    show ?thesis
    proof (cases x)
      case (Some e)
      with assms conf loop show ?thesis by (simp add: Fjson_rpc_def)
    next
      case None
      with loop have loop': "Fjson_rpc_loop lib callback conf [] p = Inr (None, front, p1)"
        by simp
      show ?thesis
      proof (cases "callback front end_of_session")
        case (Some e)
        with assms conf loop' show ?thesis by (simp add: Fjson_rpc_def)
      next
        case none: None
        show ?thesis
        proof (cases locked)
          case False
          with assms conf loop' none show ?thesis by (simp add: Fjson_rpc_def)
        next
          case True
          with assms conf loop' none obtain h1 where "handle p1 = Some h1"
            by (cases "handle p1") (auto simp: Fjson_rpc_def)
          with assms conf loop' none True show ?thesis by (auto simp: Fjson_rpc_def)
        qed
      qed
    qed
  qed
qed



section \<open>End of session, and who closes the handle\<close>

lemma json_parse_args_nil: "json_parse_args [] conf p = Inr conf"
  by (simp add: json_parse_args_def json_parse_args_loop_0)

lemmas run_simps =
  Fjson_rpc_def json_parse_args_nil session_def child_def json_rpc_connection_state_def
  zeroed_memory_def byte_by_byte_def Fjson_rpc_loop.simps ssp_isalive_def json_rpc_callback_def
  read_until.simps read_stdout.simps ssp_recv_def capture_stderr_def c_str_def BUFFER_SIZE_def
  read_payload.simps strtol_def isspace_def isdigit_def digit_value_def LONG_MAX_def LONG_MIN_def
  INT_MAX_def int_of_size_t_def size_t_of_long_def msg_buffer_def json_loads_literal_def
  scalars_def returning_def refusing_def default_configuration_def end_of_session_def



text \<open>
  Claim C4 fails on this run.  The dispatch loop of a session whose child has already gone
  ends at once and the end-of-session call is made; the 1 s timed lock then fails, and
  \<^verbatim>\<open>json-rpc\<close> returns \<open>nil\<close> with the handle neither closed nor set to null.  Nothing
  closes it later: the finalizer's assertion that the handle is null fails on the state
  that is left.
\<close>

theorem lock_timeout_abandons_the_handle:
  "Fjson_rpc scalars returning False [] (session [] []) =
     Inr (Returned Qnil, [end_of_session], session [] []) \<and>
   handle (session [] []) = Some (child [] []) \<and>
   closed (session [] []) = [] \<and>
   json_rpc_state_free (session [] []) = Inl Assertion_failed"
  by (simp add: run_simps json_rpc_state_free_def)

lemma Fjson_rpc_closes:
  assumes "Fjson_rpc lib callback locked args p = Inr (ex, ds, p')" "handle p = Some h"
  shows "if locked \<and> ex = Returned Qnil
         then (\<exists>h'. closed p' = closed p @ [h'] \<and> handle p' = None)
         else closed p' = closed p \<and> handle p' \<noteq> None"
proof -
  from Fjson_rpc_cases[OF assms(1)] consider
    (rejected) "ex \<noteq> Returned Qnil" "p' = p"
    | (left) conf e where
      "Fjson_rpc_loop lib callback conf [] p = Inr (Some e, ds, p')" "ex = Signalled e"
    | (refused) conf front e where
      "Fjson_rpc_loop lib callback conf [] p = Inr (None, front, p')" "ex = Signalled e"
    | (ended) conf front p1 where
      "Fjson_rpc_loop lib callback conf [] p = Inr (None, front, p1)" "ex = Returned Qnil"
      "if locked
       then (\<exists>h1. handle p1 = Some h1 \<and> p' = p1\<lparr>handle := None, closed := closed p1 @ [h1]\<rparr>)
       else p' = p1"
    by blast
  then show ?thesis
  proof cases
    case rejected
    with assms(2) show ?thesis by simp
  next
    case left
    note s = Fjson_rpc_loop_calls[OF left(1), THEN conjunct1]
    from session_on_handle[OF s assms(2)] s left(2) show ?thesis
      by (auto simp: session_on_def)
  next
    case refused
    note s = Fjson_rpc_loop_calls[OF refused(1), THEN conjunct1]
    from session_on_handle[OF s assms(2)] s refused(2) show ?thesis
      by (auto simp: session_on_def)
  next
    case ended
    note s = Fjson_rpc_loop_calls[OF ended(1), THEN conjunct1]
    have cl: "closed p1 = closed p" using s by (simp add: session_on_def)
    from session_on_handle[OF s assms(2)] obtain h1 where "handle p1 = Some h1" ..
    with ended(2,3) cl show ?thesis by (auto split: if_splits)
  qed
qed

lemma Fjson_rpc_shutdown_live:
  assumes "handle s = Some h"
  shows "Fjson_rpc_shutdown locked s =
     Inr (Returned Qnil,
          s\<lparr>cancel_send := True, handle := Some (if locked then ssp_cancel_recv h else h)\<rparr>)"
proof -
  have "s\<lparr>cancel_send := True\<rparr> = s\<lparr>cancel_send := True, handle := Some h\<rparr>"
    using assms by simp
  with assms show ?thesis
    by (cases locked) 
      (simp_all add: Fjson_rpc_shutdown_def can_use_handle_def end_using_handle_def Let_def)
qed

text \<open>
  Claim C5, as the code has it.  An explicit shutdown request never closes the handle and
  never sets it to null: on a live session \<^verbatim>\<open>json-rpc-shutdown\<close> returns \<open>nil\<close> having set
  the cancellation flag and, when it got the lock, called \<^verbatim>\<open>cancel_recv\<close> on the handle,
  which is otherwise as it was; a second request does the same again, again without an
  error and without a close.  The handle is closed by \<^verbatim>\<open>json-rpc\<close> alone: once, after the
  loop, when it returns and gets the lock.
\<close>

theorem handle_closed_by_dispatch_loop_only:
  assumes "handle s = Some h"
  shows "(\<exists>s1 s2. Fjson_rpc_shutdown l1 s = Inr (Returned Qnil, s1) \<and>
            Fjson_rpc_shutdown l2 s1 = Inr (Returned Qnil, s2) \<and>
            handle s1 \<noteq> None \<and> handle s2 \<noteq> None \<and>
            closed s1 = closed s \<and> closed s2 = closed s \<and>
            cancel_send s1 \<and> cancel_send s2 \<and>
            handle s1 = Some (if l1 then ssp_cancel_recv h else h) \<and>
            handle s2 = Some (if l2 then ssp_cancel_recv (if l1 then ssp_cancel_recv h else h)
                              else (if l1 then ssp_cancel_recv h else h))) \<and>
         (\<forall>ex ds s'. Fjson_rpc lib callback locked args s = Inr (ex, ds, s') \<longrightarrow>
            (if locked \<and> ex = Returned Qnil
             then (\<exists>h'. closed s' = closed s @ [h'] \<and> handle s' = None)
             else closed s' = closed s \<and> handle s' \<noteq> None))"
proof (intro conjI allI impI)
  let ?s1 = "s\<lparr>cancel_send := True, handle := Some (if l1 then ssp_cancel_recv h else h)\<rparr>"
  have h1: "handle ?s1 = Some (if l1 then ssp_cancel_recv h else h)" by simp
  show "\<exists>s1 s2. Fjson_rpc_shutdown l1 s = Inr (Returned Qnil, s1) \<and>
            Fjson_rpc_shutdown l2 s1 = Inr (Returned Qnil, s2) \<and>
            handle s1 \<noteq> None \<and> handle s2 \<noteq> None \<and>
            closed s1 = closed s \<and> closed s2 = closed s \<and>
            cancel_send s1 \<and> cancel_send s2 \<and>
            handle s1 = Some (if l1 then ssp_cancel_recv h else h) \<and>
            handle s2 = Some (if l2 then ssp_cancel_recv (if l1 then ssp_cancel_recv h else h)
                              else (if l1 then ssp_cancel_recv h else h))"
    using Fjson_rpc_shutdown_live[OF assms, of l1] Fjson_rpc_shutdown_live[OF h1, of l2]
    by simp
next
  fix ex ds s'
  assume "Fjson_rpc lib callback locked args s = Inr (ex, ds, s')"
  from Fjson_rpc_closes[OF this assms]
  show "if locked \<and> ex = Returned Qnil
        then (\<exists>h'. closed s' = closed s @ [h'] \<and> handle s' = None)
        else closed s' = closed s \<and> handle s' \<noteq> None" .
qed

text \<open>
  Claim C5, as stated, fails on this run: a shutdown request comes first, on a fresh
  session, and gets the lock.  It returns \<open>nil\<close>; afterwards the handle is still there
  (one \<^verbatim>\<open>cancel_recv\<close> call richer) and nothing has been closed.
\<close>

theorem shutdown_first_does_not_close:
  "Fjson_rpc_shutdown True (session [] [True]) =
     Inr (Returned Qnil,
          (session [] [True])\<lparr>cancel_send := True,
             handle := Some ((child [] [True])\<lparr>cancels := 1\<rparr>)\<rparr>) \<and>
   handle ((session [] [True])\<lparr>cancel_send := True,
             handle := Some ((child [] [True])\<lparr>cancels := 1\<rparr>)\<rparr>) \<noteq> None \<and>
   closed ((session [] [True])\<lparr>cancel_send := True,
             handle := Some ((child [] [True])\<lparr>cancels := 1\<rparr>)\<rparr>) = []"
  by (simp add: Fjson_rpc_shutdown_def can_use_handle_def end_using_handle_def Let_def
      session_def child_def json_rpc_connection_state_def zeroed_memory_def ssp_cancel_recv_def)

theorem handle_closed_by_dispatch_loop_only_witness:
  "handle (session [] []) = Some (child [] []) \<and>
   Fjson_rpc scalars returning True [] (session [] []) =
     Inr (Returned Qnil, [end_of_session],
          (session [] [])\<lparr>handle := None, closed := [child [] []]\<rparr>) \<and>
   (\<exists>h'. closed ((session [] [])\<lparr>handle := None, closed := [child [] []]\<rparr>) =
           closed (session [] []) @ [h'] \<and>
         handle ((session [] [])\<lparr>handle := None, closed := [child [] []]\<rparr>) = None) \<and>
   (\<exists>s1 s2. Fjson_rpc_shutdown True (session [] []) = Inr (Returned Qnil, s1) \<and>
        Fjson_rpc_shutdown False s1 = Inr (Returned Qnil, s2) \<and>
        handle s1 \<noteq> None \<and> handle s2 \<noteq> None \<and>
        closed s1 = closed (session [] []) \<and> closed s2 = closed (session [] []) \<and>
        cancel_send s1 \<and> cancel_send s2 \<and>
        handle s1 = Some (ssp_cancel_recv (child [] [])) \<and>
        handle s2 = Some (ssp_cancel_recv (child [] [])))"
proof -
  have h: "handle (session [] []) = Some (child [] [])"
    by (simp add: session_def json_rpc_connection_state_def)
  have run: "Fjson_rpc scalars returning True [] (session [] []) =
     Inr (Returned Qnil, [end_of_session],
          (session [] [])\<lparr>handle := None, closed := [child [] []]\<rparr>)"
    by (simp add: run_simps)
  have c: "closed (session [] []) = []"
    by (simp add: session_def json_rpc_connection_state_def)
  from handle_closed_by_dispatch_loop_only[OF h, of True False scalars returning True "[]"] h run
  show ?thesis by (simp add: c)
qed

text \<open>
  Once the handle is null, a request that gets the lock runs into the assertion of
  \<^verbatim>\<open>end_using_handle\<close>, which \<^verbatim>\<open>can_use_handle\<close> calls on the very path where the handle is
  gone.
\<close>

lemma Fjson_rpc_shutdown_after_close:
  "handle s = None \<Longrightarrow> Fjson_rpc_shutdown True s = Inl Assertion_failed"
  by (simp add: Fjson_rpc_shutdown_def can_use_handle_def end_using_handle_def Let_def)

section \<open>Frames that end early, frames that do not decode\<close>

lemma reads_on_fields:
  assumes "reads_on p q"
  shows "done' q = done' p" "message q = message p" "error q = error p"
    "closed q = closed p" "handle p = Some h \<Longrightarrow> handle q \<noteq> None"
  using assms by (auto simp: reads_on_def split: option.splits)

text \<open>
  A payload loop that returns without setting \<open>done\<close> has read as many bytes as it had to,
  and the last of them went to offset \<open>content_length - 1\<close> of a buffer that is there.
\<close>

lemma read_payload_complete:
  "read_payload p buffer n k acc = Inr (msg, p') \<Longrightarrow> \<not> done' p' \<Longrightarrow>
   length msg = length acc + k"
proof (induction k arbitrary: p acc rule: less_induct)
  case (less k)
  show ?case
  proof (cases "0 < k")
    case False
    with less.prems show ?thesis by (simp add: read_payload_unfold[of p])
  next
    case True
    from read_payload_round[OF less.prems(1) True] obtain bytes p1 where
      rs: "read_stdout p k = Inr (bytes, p1)"
      and e: "bytes = [] \<Longrightarrow> msg = acc \<and> p' = p1\<lparr>done' := True\<rparr>"
      and ne: "bytes \<noteq> [] \<Longrightarrow>
           read_payload p1 buffer n (k - length bytes) (acc @ bytes) = Inr (msg, p')"
      by blast
    from e less.prems(2) have nonempty: "bytes \<noteq> []" by auto
    then have "k - length bytes < k" using True by (cases bytes) auto
    from less.IH[OF this ne[OF nonempty] less.prems(2)] read_stdout_length[OF rs]
    show ?thesis by simp
  qed
qed

lemma read_payload_capacity:
  "read_payload p buffer n k acc = Inr (msg, p') \<Longrightarrow> \<not> done' p' \<Longrightarrow> k \<le> n \<Longrightarrow> 0 < k \<Longrightarrow>
   \<exists>capacity. buffer = Some capacity \<and> n \<le> capacity"
proof (induction k arbitrary: p acc rule: less_induct)
  case (less k)
  from read_payload_round[OF less.prems(1,4)] obtain bytes p1 where
    rs: "read_stdout p k = Inr (bytes, p1)"
    and e: "bytes = [] \<Longrightarrow> msg = acc \<and> p' = p1\<lparr>done' := True\<rparr>"
    and ne: "bytes \<noteq> [] \<Longrightarrow>
         read_payload p1 buffer n (k - length bytes) (acc @ bytes) = Inr (msg, p')"
    and cap: "bytes \<noteq> [] \<Longrightarrow>
         \<exists>capacity. buffer = Some capacity \<and> (n - k) + length bytes \<le> capacity"
    by blast
  from e less.prems(2) have nonempty: "bytes \<noteq> []" by auto
  show ?case
  proof (cases "k - length bytes = 0")
    case True
    with read_stdout_length[OF rs] have "length bytes = k" by simp
    with cap[OF nonempty] less.prems(3) show ?thesis by auto
  next
    case False
    have "k - length bytes < k" using nonempty less.prems(4) by (cases bytes) auto
    from less.IH[OF this ne[OF nonempty] less.prems(2)] less.prems(3) False
    show ?thesis by simp
  qed
qed

lemma size_t_of_long_bound: "size_t_of_long v < 2 ^ 64"
  by (simp add: size_t_of_long_def nat_less_iff)

lemma strtol_digits_no_digit:
  "(case s of [] \<Rightarrow> True | d # _ \<Rightarrow> \<not> isdigit d) \<Longrightarrow> strtol_digits 0 s = 0"
  by (cases s) auto

lemma strtol_non_numeric:
  assumes "non_numeric s"
  shows "strtol s = 0"
proof (cases "dropWhile isspace s")
  case Nil
  show ?thesis unfolding strtol_def Let_def Nil by (simp add: LONG_MAX_def LONG_MIN_def)
next
  case (Cons c cs)
  show ?thesis
  proof (cases "c = CHR ''-'' \<or> c = CHR ''+''")
    case True
    with assms Cons have "strtol_digits 0 cs = 0"
      by (intro strtol_digits_no_digit) (auto simp: non_numeric_def)
    with True show ?thesis
      unfolding strtol_def Let_def Cons by (auto simp: LONG_MAX_def LONG_MIN_def)
  next
    case False
    with assms Cons have "\<not> isdigit c" by (auto simp: non_numeric_def)
    then have "strtol_digits 0 (c # cs) = 0" by simp
    with False show ?thesis
      unfolding strtol_def Let_def Cons by (simp add: LONG_MAX_def LONG_MIN_def)
  qed
qed

lemma read_payload_0: "read_payload p buffer n 0 msg = Inr (msg, p)"
  by (simp add: read_payload_unfold[of p])

text \<open>A frame whose payload was read to the end: the terminator is stored, the decoder runs.\<close>

lemma json_rpc_callback_frame:
  assumes "read_until p ''Content-Length:'' [] = Inr (True, mark, p1)"
    and "read_until p1 [CR, LF, CR, LF] [] = Inr (True, data, p2)"
    and "msg_buffer lib (size_t_of_long (strtol (c_str data))) = Some capacity"
    and "read_payload p2 (Some capacity) (size_t_of_long (strtol (c_str data)))
           (size_t_of_long (strtol (c_str data))) [] = Inr (msg, p3)"
    and "\<not> done' p3"
  shows "json_rpc_callback lib p =
     (case json_loads lib (c_str msg) of
        Inr j \<Rightarrow> Inr (p3\<lparr>message := Some j\<rparr>)
      | Inl e \<Rightarrow> Inr (p3\<lparr>message := None, error := e\<rparr>))"
proof -
  let ?n = "size_t_of_long (strtol (c_str data))"
  have room: "\<not> capacity \<le> ?n"
  proof (cases "?n + 1 < 2 ^ 64")
    case True
    with assms(3) show ?thesis by (auto simp: msg_buffer_def Let_def split: if_splits)
  next
    case False
    with size_t_of_long_bound[of "strtol (c_str data)"] have top: "?n + 1 = 2 ^ 64" by simp
    then have "(?n + 1) mod 2 ^ 64 = 0" by simp
    with assms(3) have zero: "capacity = 0"
      by (auto simp: msg_buffer_def Let_def split: if_splits)
    from top have pos: "0 < ?n" by simp
    from read_payload_capacity[OF assms(4,5) order_refl pos] zero pos show ?thesis by simp
  qed
  from json_rpc_callback_payload[OF assms(1,2), of lib] assms(3,4,5) room show ?thesis
    by simp
qed

lemma Fjson_rpc_loop_prefix:
  "Fjson_rpc_loop lib callback conf calls p = Inr (x, calls', p') \<Longrightarrow>
   \<exists>rest. calls' = calls @ rest"
  using Fjson_rpc_loop_calls[of lib callback conf calls p x calls' p']
  by (auto simp: loop_adds_def)

text \<open>
  The iteration of the loop in which the frame does not decode: the handler is called with
  \<open>d\<close>, and if it returns the loop goes on from the state \<open>p'\<close> after the frame.
\<close>

lemma Fjson_rpc_loop_delivers_error:
  assumes "\<not> done' param" "handle param = Some h" "ssp_isalive h = (True, h1)"
    and "json_rpc_callback lib (param\<lparr>handle := Some h1\<rparr>) = Inr p'"
    and "\<not> done' p'" "message p' = None"
    and "d = (Qnil, get_json_parse_error (error p'), Qnil)"
  shows "Fjson_rpc_loop lib callback conf calls param =
      (case callback calls d of
         None \<Rightarrow> Fjson_rpc_loop lib callback conf (calls @ [d]) p'
       | Some err \<Rightarrow> Inr (Some err, calls @ [d], p'))"
    and "\<forall>x calls' p''. Fjson_rpc_loop lib callback conf calls param = Inr (x, calls', p'') \<longrightarrow>
           (\<exists>rest. calls' = calls @ d # rest)"
    and "handle p' \<noteq> None"
proof -
  show step: "Fjson_rpc_loop lib callback conf calls param =
      (case callback calls d of
         None \<Rightarrow> Fjson_rpc_loop lib callback conf (calls @ [d]) p'
       | Some err \<Rightarrow> Inr (Some err, calls @ [d], p'))"
    using Fjson_rpc_loop_error[OF assms(1,2,3,4,5,6), of callback conf calls] assms(7)
    by (simp split: option.splits)
  show "\<forall>x calls' p''. Fjson_rpc_loop lib callback conf calls param = Inr (x, calls', p'') \<longrightarrow>
           (\<exists>rest. calls' = calls @ d # rest)"
  proof (intro allI impI)
    fix x calls' p''
    assume run: "Fjson_rpc_loop lib callback conf calls param = Inr (x, calls', p'')"
    show "\<exists>rest. calls' = calls @ d # rest"
    proof (cases "callback calls d")
      case (Some err)
      with run step have "calls' = calls @ d # []" by simp
      then show ?thesis ..
    next
      case None
      with run step have "Fjson_rpc_loop lib callback conf (calls @ [d]) p' = Inr (x, calls', p'')"
        by simp
      from Fjson_rpc_loop_prefix[OF this] show ?thesis by auto
    qed
  qed
  show "handle p' \<noteq> None"
    using session_on_handle[OF json_rpc_callback_session_on[OF assms(4)]] by auto
qed

lemma get_json_parse_error_value:
  "get_json_parse_error e =
     Cons (case code e of
             json_error_premature_end_of_input \<Rightarrow> Qjson_end_of_file
           | json_error_end_of_input_expected \<Rightarrow> Qjson_trailing_content
           | json_error_invalid_syntax \<Rightarrow> Qjson_parse_error)
       (Cons (String (error_text e)) (Cons (String (source e)) (Cons (Fixnum (line e))
          (Cons (Fixnum (column e)) (Cons (Fixnum (position e)) Qnil)))))"
  by (simp add: get_json_parse_error_def split: json_error_code.splits)

text \<open>
  Claim C9.  The loop is running and the process answers alive; the marker and the
  delimiter are found, \<^verbatim>\<open>malloc\<close> returns a buffer for the payload, the payload is read to
  its full length, and the decoder rejects it with the error \<open>e\<close>.  Then the handler is
  called with no message, with the parse error made from \<open>e\<close> (the error symbol for its
  code, then its text, its source, its line, its column and its position) and with \<open>nil\<close>
  for the end-of-session flag: the call comes right after the calls made so far in every
  run of the loop from here.  If the handler returns, the loop goes on from the state
  after the frame, in which \<open>done\<close> is still false and the handle is still there, so the
  next frames are read; the only signal that can leave this iteration is one the handler
  itself raises.
\<close>

theorem decode_failure_is_delivered_and_loop_continues:
  fixes e :: json_error_t
  defines "d \<equiv>
     (Qnil,
      Cons (case code e of
              json_error_premature_end_of_input \<Rightarrow> Qjson_end_of_file
            | json_error_end_of_input_expected \<Rightarrow> Qjson_trailing_content
            | json_error_invalid_syntax \<Rightarrow> Qjson_parse_error)
        (Cons (String (error_text e)) (Cons (String (source e)) (Cons (Fixnum (line e))
           (Cons (Fixnum (column e)) (Cons (Fixnum (position e)) Qnil))))),
      Qnil)"
  assumes "\<not> done' param" "handle param = Some h" "ssp_isalive h = (True, h1)"
    and "read_until (param\<lparr>handle := Some h1\<rparr>) ''Content-Length:'' [] = Inr (True, mark, p1)"
    and "read_until p1 [CR, LF, CR, LF] [] = Inr (True, data, p2)"
    and "msg_buffer lib (size_t_of_long (strtol (c_str data))) = Some capacity"
    and "read_payload p2 (Some capacity) (size_t_of_long (strtol (c_str data)))
           (size_t_of_long (strtol (c_str data))) [] = Inr (msg, p3)"
    and "\<not> done' p3"
    and "json_loads lib (c_str msg) = Inl e"
  shows "length msg = size_t_of_long (strtol (c_str data)) \<and>
    Fjson_rpc_loop lib callback conf calls param =
      (case callback calls d of
         None \<Rightarrow>
           Fjson_rpc_loop lib callback conf (calls @ [d]) (p3\<lparr>message := None, error := e\<rparr>)
       | Some err \<Rightarrow> Inr (Some err, calls @ [d], p3\<lparr>message := None, error := e\<rparr>)) \<and>
    (\<forall>x calls' p''.
       Fjson_rpc_loop lib callback conf calls param = Inr (x, calls', p'') \<longrightarrow>
       (\<exists>rest. calls' = calls @ d # rest)) \<and>
    \<not> done' (p3\<lparr>message := None, error := e\<rparr>) \<and>
    handle (p3\<lparr>message := None, error := e\<rparr>) \<noteq> None"
proof -
  let ?p' = "p3\<lparr>message := None, error := e\<rparr>"
  have cb: "json_rpc_callback lib (param\<lparr>handle := Some h1\<rparr>) = Inr ?p'"
    using json_rpc_callback_frame[OF assms(5,6,7,8,9)] assms(10) by simp
  have nd: "\<not> done' ?p'" using assms(9) by simp
  have m: "message ?p' = None" by simp
  have d: "d = (Qnil, get_json_parse_error (error ?p'), Qnil)"
    unfolding d_def by (simp add: get_json_parse_error_value)
  note r = Fjson_rpc_loop_delivers_error[OF assms(2,3,4) cb nd m d]
  have len: "length msg = size_t_of_long (strtol (c_str data))"
    using read_payload_complete[OF assms(8,9)] by simp
  from len r(1)[of callback conf calls] r(2)[of callback conf calls] r(3) nd
  show ?thesis by blast
qed

text \<open>
  Claim C2, as the code has it.  The loop is running and the process answers alive; the
  marker and the delimiter are found, and the text between them holds no decimal integer.
  \<^verbatim>\<open>strtol\<close> then yields 0, a buffer of one byte is asked for (and \<^verbatim>\<open>malloc\<close> returns one), no
  payload byte is read, and the decoder is given the empty text.  When it rejects the
  empty text with the error \<open>e\<close> (every JSON decoder does), the handler is called with no
  message, with the parse error made from \<open>e\<close> and with \<open>nil\<close> for the end-of-session flag,
  right after the calls made so far; if the handler returns, the loop goes on from the
  state after the header, in which \<open>done\<close> is still false and the handle is still there:
  the session is not terminated.
\<close>

theorem non_numeric_length_is_a_parse_error:
  fixes e :: json_error_t
  defines "d \<equiv>
     (Qnil,
      Cons (case code e of
              json_error_premature_end_of_input \<Rightarrow> Qjson_end_of_file
            | json_error_end_of_input_expected \<Rightarrow> Qjson_trailing_content
            | json_error_invalid_syntax \<Rightarrow> Qjson_parse_error)
        (Cons (String (error_text e)) (Cons (String (source e)) (Cons (Fixnum (line e))
           (Cons (Fixnum (column e)) (Cons (Fixnum (position e)) Qnil))))),
      Qnil)"
  assumes "\<not> done' param" "handle param = Some h" "ssp_isalive h = (True, h1)"
    and "read_until (param\<lparr>handle := Some h1\<rparr>) ''Content-Length:'' [] = Inr (True, mark, p1)"
    and "read_until p1 [CR, LF, CR, LF] [] = Inr (True, data, p2)"
    and "non_numeric (c_str data)"
    and "malloc lib 1"
    and "json_loads lib [] = Inl e"
  shows "Fjson_rpc_loop lib callback conf calls param =
      (case callback calls d of
         None \<Rightarrow>
           Fjson_rpc_loop lib callback conf (calls @ [d]) (p2\<lparr>message := None, error := e\<rparr>)
       | Some err \<Rightarrow> Inr (Some err, calls @ [d], p2\<lparr>message := None, error := e\<rparr>)) \<and>
    (\<forall>x calls' p''.
       Fjson_rpc_loop lib callback conf calls param = Inr (x, calls', p'') \<longrightarrow>
       (\<exists>rest. calls' = calls @ d # rest)) \<and>
    \<not> done' (p2\<lparr>message := None, error := e\<rparr>) \<and>
    handle (p2\<lparr>message := None, error := e\<rparr>) \<noteq> None"
proof -
  let ?p' = "p2\<lparr>message := None, error := e\<rparr>"
  have z: "size_t_of_long (strtol (c_str data)) = 0"
    using strtol_non_numeric[OF assms(7)] by (simp add: size_t_of_long_def)
  have buf: "msg_buffer lib (size_t_of_long (strtol (c_str data))) = Some 1"
    using assms(8) by (simp add: z msg_buffer_def)
  have nd2: "\<not> done' p2"
    using reads_on_fields(1)[OF read_until_reads_on[OF assms(5)]]
      reads_on_fields(1)[OF read_until_reads_on[OF assms(6)]] assms(2) by simp
  have rp: "read_payload p2 (Some 1) (size_t_of_long (strtol (c_str data)))
              (size_t_of_long (strtol (c_str data))) [] = Inr ([], p2)"
    by (simp add: z read_payload_0)
  have cb: "json_rpc_callback lib (param\<lparr>handle := Some h1\<rparr>) = Inr ?p'"
    using json_rpc_callback_frame[OF assms(5,6) buf rp nd2] assms(9) by (simp add: c_str_def)
  have nd: "\<not> done' ?p'" using nd2 by simp
  have m: "message ?p' = None" by simp
  have d: "d = (Qnil, get_json_parse_error (error ?p'), Qnil)"
    unfolding d_def by (simp add: get_json_parse_error_value)
  note r = Fjson_rpc_loop_delivers_error[OF assms(2,3,4) cb nd m d]
  from r(1)[of callback conf calls] r(2)[of callback conf calls] r(3) nd
  show ?thesis by blast
qed

text \<open>
  Claim C8.  The loop is running and the process answers alive, and the frame being read
  ends early: \<^verbatim>\<open>read_until\<close> returns false while looking for the marker, or while looking
  for the delimiter, or the payload loop gets a read of zero bytes and sets \<open>done\<close>
  (\<^verbatim>\<open>read_stdout\<close> returns zero bytes only when \<^verbatim>\<open>recv\<close> brought none and \<^verbatim>\<open>isalive\<close> said no).
  Then \<^verbatim>\<open>json_rpc_callback\<close> ends with \<open>done\<close> set and \<open>message\<close> untouched, and the loop stops
  with the handler calls it had made before this frame and no other; when this was the first
  frame of the invocation, the only handler call of \<^verbatim>\<open>json-rpc\<close> is the end-of-session call.
\<close>

theorem premature_end_terminates_without_delivery:
  assumes "\<not> done' param" "handle param = Some h" "ssp_isalive h = (True, h1)"
    and "json_parse_args args default_configuration True = Inr conf"
    and "(\<exists>mark p1.
            read_until (param\<lparr>handle := Some h1\<rparr>) ''Content-Length:'' [] = Inr (False, mark, p1)) \<or>
         (\<exists>mark p1 data p2.
            read_until (param\<lparr>handle := Some h1\<rparr>) ''Content-Length:'' [] = Inr (True, mark, p1) \<and>
            read_until p1 [CR, LF, CR, LF] [] = Inr (False, data, p2)) \<or>
         (\<exists>mark p1 data p2 msg p3.
            read_until (param\<lparr>handle := Some h1\<rparr>) ''Content-Length:'' [] = Inr (True, mark, p1) \<and>
            read_until p1 [CR, LF, CR, LF] [] = Inr (True, data, p2) \<and>
            read_payload p2 (msg_buffer lib (size_t_of_long (strtol (c_str data))))
              (size_t_of_long (strtol (c_str data))) (size_t_of_long (strtol (c_str data))) [] =
              Inr (msg, p3) \<and>
            done' p3)"
  shows "\<exists>p'. json_rpc_callback lib (param\<lparr>handle := Some h1\<rparr>) = Inr p' \<and>
           done' p' \<and> message p' = message param \<and>
           (\<forall>calls. Fjson_rpc_loop lib callback conf calls param = Inr (None, calls, p')) \<and>
           handler_calls (Fjson_rpc lib callback locked args param) = Some [end_of_session]"
proof -
  let ?P = "param\<lparr>handle := Some h1\<rparr>"
  have "\<exists>p'. json_rpc_callback lib ?P = Inr p' \<and> done' p' \<and> message p' = message ?P"
    using assms(5)
  proof (elim disjE exE conjE)
    fix mark p1
    assume a: "read_until ?P ''Content-Length:'' [] = Inr (False, mark, p1)"
    from json_rpc_callback_no_marker[OF a, of lib] reads_on_fields(2)[OF read_until_reads_on[OF a]]
    show ?thesis by simp
  next
    fix mark p1 data p2
    assume a: "read_until ?P ''Content-Length:'' [] = Inr (True, mark, p1)"
      and b: "read_until p1 [CR, LF, CR, LF] [] = Inr (False, data, p2)"
    from json_rpc_callback_no_delimiter[OF a b, of lib]
      reads_on_fields(2)[OF read_until_reads_on[OF a]]
      reads_on_fields(2)[OF read_until_reads_on[OF b]]
    show ?thesis by simp
  next
    fix mark p1 data p2 msg p3
    assume a: "read_until ?P ''Content-Length:'' [] = Inr (True, mark, p1)"
      and b: "read_until p1 [CR, LF, CR, LF] [] = Inr (True, data, p2)"
      and e: "read_payload p2 (msg_buffer lib (size_t_of_long (strtol (c_str data))))
              (size_t_of_long (strtol (c_str data))) (size_t_of_long (strtol (c_str data))) [] =
              Inr (msg, p3)"
      and f: "done' p3"
    from json_rpc_callback_payload[OF a b, of lib] e f
      reads_on_fields(2)[OF read_until_reads_on[OF a]]
      reads_on_fields(2)[OF read_until_reads_on[OF b]]
      reads_on_fields(2)[OF read_payload_reads_on[OF e]]
    show ?thesis by simp
  qed
  then obtain p' where cb: "json_rpc_callback lib ?P = Inr p'" and dn: "done' p'"
    and msg: "message p' = message param" by auto
  have loop: "Fjson_rpc_loop lib callback conf calls param = Inr (None, calls, p')" for calls
    using Fjson_rpc_loop_ended[OF assms(1,2,3) cb dn] .
  from session_on_handle[OF json_rpc_callback_session_on[OF cb]]
  obtain h' where h': "handle p' = Some h'" by auto
  have "handler_calls (Fjson_rpc lib callback locked args param) = Some [end_of_session]"
    using Fjson_rpc_result[OF assms(4) loop h', of locked]
    by (simp add: handler_calls_def split: option.splits)
  with cb dn msg loop show ?thesis by blast
qed

section \<open>Example runs\<close>

lemma session_handle:
  "handle (session recvs alives) = Some (child recvs alives)"
  "\<not> done' (session recvs alives)"
  "(session recvs alives)\<lparr>handle := Some (child recvs' alives')\<rparr> = session recvs' alives'"
  by (simp_all add: session_def json_rpc_connection_state_def child_def)

lemma child_alive: "ssp_isalive (child recvs (a # alives)) = (a, child recvs alives)"
  by (simp add: ssp_isalive_def child_def)

lemma returning_case:
  "(case returning calls d of None \<Rightarrow> a | Some err \<Rightarrow> b err) = a"
  by (simp add: returning_def)

theorem decode_failure_is_delivered_and_loop_continues_witness:
  "\<not> done' (session (byte_by_byte (''Content-Length:3'' @ [CR, LF, CR, LF] @ ''tru'' @
                                   ''Content-Length:2'' @ [CR, LF, CR, LF] @ ''42''))
              [True, True]) \<and>
   read_until (session (byte_by_byte (''Content-Length:3'' @ [CR, LF, CR, LF] @ ''tru'' @
                                      ''Content-Length:2'' @ [CR, LF, CR, LF] @ ''42'')) [True])
       ''Content-Length:'' [] =
     Inr (True, ''Content-Length:'',
          session (byte_by_byte (''3'' @ [CR, LF, CR, LF] @ ''tru'' @
                                 ''Content-Length:2'' @ [CR, LF, CR, LF] @ ''42'')) [True]) \<and>
   read_until (session (byte_by_byte (''3'' @ [CR, LF, CR, LF] @ ''tru'' @
                                      ''Content-Length:2'' @ [CR, LF, CR, LF] @ ''42'')) [True])
       [CR, LF, CR, LF] [] =
     Inr (True, ''3'' @ [CR, LF, CR, LF],
          session (byte_by_byte (''tru'' @ ''Content-Length:2'' @ [CR, LF, CR, LF] @ ''42''))
            [True]) \<and>
   size_t_of_long (strtol (c_str (''3'' @ [CR, LF, CR, LF]))) = 3 \<and>
   msg_buffer scalars 3 = Some 4 \<and>
   read_payload (session (byte_by_byte (''tru'' @ ''Content-Length:2'' @ [CR, LF, CR, LF] @ ''42''))
                   [True]) (Some 4) 3 3 [] =
     Inr (''tru'', session (byte_by_byte (''Content-Length:2'' @ [CR, LF, CR, LF] @ ''42'')) [True]) \<and>
   json_loads scalars (c_str ''tru'') = Inl invalid_token \<and>
   Fjson_rpc_loop scalars returning default_configuration []
       (session (byte_by_byte (''Content-Length:3'' @ [CR, LF, CR, LF] @ ''tru'' @
                               ''Content-Length:2'' @ [CR, LF, CR, LF] @ ''42''))
          [True, True]) =
     Fjson_rpc_loop scalars returning default_configuration
       [(Qnil,
         Cons Qjson_parse_error
           (Cons (String ''invalid token'') (Cons (String ''<string>'') (Cons (Fixnum 1)
              (Cons (Fixnum 1) (Cons (Fixnum 1) Qnil))))),
         Qnil)]
       ((session (byte_by_byte (''Content-Length:2'' @ [CR, LF, CR, LF] @ ''42'')) [True])
          \<lparr>message := None, error := invalid_token\<rparr>) \<and>
   handler_calls
     (Fjson_rpc scalars returning True []
        (session (byte_by_byte (''Content-Length:3'' @ [CR, LF, CR, LF] @ ''tru'' @
                                ''Content-Length:2'' @ [CR, LF, CR, LF] @ ''42''))
           [True, True])) =
     Some [(Qnil,
            Cons Qjson_parse_error
              (Cons (String ''invalid token'') (Cons (String ''<string>'') (Cons (Fixnum 1)
                 (Cons (Fixnum 1) (Cons (Fixnum 1) Qnil))))),
            Qnil),
           (Fixnum 42, Qnil, Qnil), end_of_session]"
proof -
  let ?next = "''Content-Length:2'' @ [CR, LF, CR, LF] @ ''42''"
  let ?bytes = "byte_by_byte (''Content-Length:3'' @ [CR, LF, CR, LF] @ ''tru'' @ ?next)"
  let ?d = "(Qnil,
         Cons Qjson_parse_error
           (Cons (String ''invalid token'') (Cons (String ''<string>'') (Cons (Fixnum 1)
              (Cons (Fixnum 1) (Cons (Fixnum 1) Qnil))))),
         Qnil)"
  have a: "\<not> done' (session ?bytes [True, True])"
    and b: "handle (session ?bytes [True, True]) = Some (child ?bytes [True, True])"
    by (rule session_handle)+
  have c: "ssp_isalive (child ?bytes [True, True]) = (True, child ?bytes [True])"
    by (rule child_alive)
  have d: "read_until ((session ?bytes [True, True])\<lparr>handle := Some (child ?bytes [True])\<rparr>)
             ''Content-Length:'' [] =
           Inr (True, ''Content-Length:'',
                session (byte_by_byte (''3'' @ [CR, LF, CR, LF] @ ''tru'' @ ?next)) [True])"
    by (simp add: run_simps)
  have e: "read_until (session (byte_by_byte (''3'' @ [CR, LF, CR, LF] @ ''tru'' @ ?next)) [True])
             [CR, LF, CR, LF] [] =
           Inr (True, ''3'' @ [CR, LF, CR, LF], session (byte_by_byte (''tru'' @ ?next)) [True])"
    by (simp add: run_simps)
  have n: "size_t_of_long (strtol (c_str (''3'' @ [CR, LF, CR, LF]))) = 3"
    by (simp add: run_simps)
  have f: "msg_buffer scalars 3 = Some 4" by (simp add: run_simps)
  have g: "read_payload (session (byte_by_byte (''tru'' @ ?next)) [True]) (Some 4) 3 3 [] =
             Inr (''tru'', session (byte_by_byte ?next) [True])"
    by (simp add: run_simps)
  have h: "\<not> done' (session (byte_by_byte ?next) [True])" by (rule session_handle)
  have i: "json_loads scalars (c_str ''tru'') = Inl invalid_token" by (simp add: run_simps)
  have v: "code invalid_token = json_error_invalid_syntax"
    "error_text invalid_token = ''invalid token''" "source invalid_token = ''<string>''"
    "line invalid_token = 1" "column invalid_token = 1" "position invalid_token = 1"
    by (simp_all add: invalid_token_def)
  note concl = decode_failure_is_delivered_and_loop_continues[
      where lib = scalars and callback = returning and conf = default_configuration
        and calls = "[]" and capacity = 4 and e = invalid_token,
      OF a b c d e f[folded n] g[folded n] h i]
  have k: "Fjson_rpc_loop scalars returning default_configuration [] (session ?bytes [True, True]) =
     Fjson_rpc_loop scalars returning default_configuration [?d]
       ((session (byte_by_byte ?next) [True])\<lparr>message := None, error := invalid_token\<rparr>)"
    using concl by (simp add: returning_case v)
  have run: "handler_calls (Fjson_rpc scalars returning True [] (session ?bytes [True, True])) =
     Some [?d, (Fixnum 42, Qnil, Qnil), end_of_session]"
    by (simp add: run_simps handler_calls_def invalid_token_def get_json_parse_error_def)
  from a d[unfolded session_handle(3)] e n f g i k run show ?thesis by blast
qed

theorem non_numeric_length_is_a_parse_error_witness:
  "\<not> done' (session (byte_by_byte (''Content-Length:x'' @ [CR, LF, CR, LF] @
                                   ''Content-Length:2'' @ [CR, LF, CR, LF] @ ''42''))
              [True, True]) \<and>
   read_until (session (byte_by_byte (''Content-Length:x'' @ [CR, LF, CR, LF] @
                                      ''Content-Length:2'' @ [CR, LF, CR, LF] @ ''42'')) [True])
       ''Content-Length:'' [] =
     Inr (True, ''Content-Length:'',
          session (byte_by_byte (''x'' @ [CR, LF, CR, LF] @
                                 ''Content-Length:2'' @ [CR, LF, CR, LF] @ ''42'')) [True]) \<and>
   read_until (session (byte_by_byte (''x'' @ [CR, LF, CR, LF] @
                                      ''Content-Length:2'' @ [CR, LF, CR, LF] @ ''42'')) [True])
       [CR, LF, CR, LF] [] =
     Inr (True, ''x'' @ [CR, LF, CR, LF],
          session (byte_by_byte (''Content-Length:2'' @ [CR, LF, CR, LF] @ ''42'')) [True]) \<and>
   non_numeric (c_str (''x'' @ [CR, LF, CR, LF])) \<and>
   malloc scalars 1 \<and>
   json_loads scalars [] = Inl premature_end \<and>
   Fjson_rpc_loop scalars returning default_configuration []
       (session (byte_by_byte (''Content-Length:x'' @ [CR, LF, CR, LF] @
                               ''Content-Length:2'' @ [CR, LF, CR, LF] @ ''42''))
          [True, True]) =
     Fjson_rpc_loop scalars returning default_configuration
       [(Qnil,
         Cons Qjson_end_of_file
           (Cons (String ''unexpected token near end of file'') (Cons (String ''<string>'')
              (Cons (Fixnum 1) (Cons (Fixnum 0) (Cons (Fixnum 0) Qnil))))),
         Qnil)]
       ((session (byte_by_byte (''Content-Length:2'' @ [CR, LF, CR, LF] @ ''42'')) [True])
          \<lparr>message := None, error := premature_end\<rparr>) \<and>
   \<not> done' ((session (byte_by_byte (''Content-Length:2'' @ [CR, LF, CR, LF] @ ''42'')) [True])
              \<lparr>message := None, error := premature_end\<rparr>)"
proof -
  let ?next = "''Content-Length:2'' @ [CR, LF, CR, LF] @ ''42''"
  let ?bytes = "byte_by_byte (''Content-Length:x'' @ [CR, LF, CR, LF] @ ?next)"
  let ?d = "(Qnil,
         Cons Qjson_end_of_file
           (Cons (String ''unexpected token near end of file'') (Cons (String ''<string>'')
              (Cons (Fixnum 1) (Cons (Fixnum 0) (Cons (Fixnum 0) Qnil))))),
         Qnil)"
  have a: "\<not> done' (session ?bytes [True, True])"
    and b: "handle (session ?bytes [True, True]) = Some (child ?bytes [True, True])"
    by (rule session_handle)+
  have c: "ssp_isalive (child ?bytes [True, True]) = (True, child ?bytes [True])"
    by (rule child_alive)
  have d: "read_until ((session ?bytes [True, True])\<lparr>handle := Some (child ?bytes [True])\<rparr>)
             ''Content-Length:'' [] =
           Inr (True, ''Content-Length:'',
                session (byte_by_byte (''x'' @ [CR, LF, CR, LF] @ ?next)) [True])"
    by (simp add: run_simps)
  have e: "read_until (session (byte_by_byte (''x'' @ [CR, LF, CR, LF] @ ?next)) [True])
             [CR, LF, CR, LF] [] =
           Inr (True, ''x'' @ [CR, LF, CR, LF], session (byte_by_byte ?next) [True])"
    by (simp add: run_simps)
  have f: "non_numeric (c_str (''x'' @ [CR, LF, CR, LF]))"
    by (simp add: non_numeric_def c_str_def isspace_def isdigit_def)
  have m: "malloc scalars 1" by (simp add: scalars_def)
  have g: "json_loads scalars [] = Inl premature_end"
    by (simp add: scalars_def json_loads_literal_def)
  have v: "code premature_end = json_error_premature_end_of_input"
    "error_text premature_end = ''unexpected token near end of file''"
    "source premature_end = ''<string>''"
    "line premature_end = 1" "column premature_end = 0" "position premature_end = 0"
    by (simp_all add: premature_end_def)
  note concl = non_numeric_length_is_a_parse_error[
      where lib = scalars and callback = returning and conf = default_configuration
        and calls = "[]" and e = premature_end,
      OF a b c d e f m g]
  have k: "Fjson_rpc_loop scalars returning default_configuration [] (session ?bytes [True, True]) =
     Fjson_rpc_loop scalars returning default_configuration [?d]
       ((session (byte_by_byte ?next) [True])\<lparr>message := None, error := premature_end\<rparr>)"
    using concl by (simp add: returning_case v)
  have nd: "\<not> done' ((session (byte_by_byte ?next) [True])
                      \<lparr>message := None, error := premature_end\<rparr>)"
    using concl by simp
  from a d[unfolded session_handle(3)] e f m g k nd show ?thesis by blast
qed

text \<open>
  Claim C2, as stated, fails on this run: the first header has the length \<^verbatim>\<open>abc\<close>.  The
  handler gets a parse error (the empty payload does not decode), then the message \<^verbatim>\<open>42\<close>
  of the next frame, and only then, the process having exited, the end-of-session call.
\<close>

theorem non_numeric_length_does_not_terminate:
  "Fjson_rpc scalars returning True []
     (session (byte_by_byte (''Content-Length: abc'' @ [CR, LF, CR, LF] @
                             ''Content-Length: 2'' @ [CR, LF, CR, LF] @ ''42''))
        [True, True, False]) =
   Inr (Returned Qnil,
        [(Qnil,
          Cons Qjson_end_of_file
            (Cons (String ''unexpected token near end of file'') (Cons (String ''<string>'')
               (Cons (Fixnum 1) (Cons (Fixnum 0) (Cons (Fixnum 0) Qnil))))),
          Qnil),
         (Fixnum 42, Qnil, Qnil),
         (Qnil, Qnil, Qt)],
        (session [] [])\<lparr>error := premature_end, handle := None, closed := [child [] []]\<rparr>)"
  by (simp add: run_simps premature_end_def get_json_parse_error_def)

theorem premature_end_terminates_without_delivery_witness:
  "read_until (session (byte_by_byte ''Content-Le'') []) ''Content-Length:'' [] =
     Inr (False, ''Content-Le'', session [] []) \<and>
   handler_calls (Fjson_rpc scalars returning True []
     (session (byte_by_byte ''Content-Le'') [True])) = Some [end_of_session] \<and>
   read_until (session (byte_by_byte (''Content-Length:4'' @ [CR, LF])) []) ''Content-Length:'' [] =
     Inr (True, ''Content-Length:'', session (byte_by_byte (''4'' @ [CR, LF])) []) \<and>
   read_until (session (byte_by_byte (''4'' @ [CR, LF])) []) [CR, LF, CR, LF] [] =
     Inr (False, ''4'' @ [CR, LF], session [] []) \<and>
   handler_calls (Fjson_rpc scalars returning True []
     (session (byte_by_byte (''Content-Length:4'' @ [CR, LF])) [True])) = Some [end_of_session] \<and>
   read_until (session (byte_by_byte (''Content-Length:4'' @ [CR, LF, CR, LF] @ ''12'')) [])
       ''Content-Length:'' [] =
     Inr (True, ''Content-Length:'', session (byte_by_byte (''4'' @ [CR, LF, CR, LF] @ ''12'')) []) \<and>
   read_until (session (byte_by_byte (''4'' @ [CR, LF, CR, LF] @ ''12'')) []) [CR, LF, CR, LF] [] =
     Inr (True, ''4'' @ [CR, LF, CR, LF], session (byte_by_byte ''12'') []) \<and>
   size_t_of_long (strtol (c_str (''4'' @ [CR, LF, CR, LF]))) = 4 \<and>
   msg_buffer scalars 4 = Some 5 \<and>
   read_payload (session (byte_by_byte ''12'') []) (Some 5) 4 4 [] =
     Inr (''12'', (session [] [])\<lparr>done' := True\<rparr>) \<and>
   handler_calls (Fjson_rpc scalars returning True []
     (session (byte_by_byte (''Content-Length:4'' @ [CR, LF, CR, LF] @ ''12'')) [True])) =
     Some [end_of_session]"
proof -
  let ?A = "byte_by_byte ''Content-Le''"
  let ?B = "byte_by_byte (''Content-Length:4'' @ [CR, LF])"
  let ?C = "byte_by_byte (''Content-Length:4'' @ [CR, LF, CR, LF] @ ''12'')"
  have args: "json_parse_args [] default_configuration True = Inr default_configuration"
    by (rule json_parse_args_nil)
  have a1: "read_until ((session ?A [True])\<lparr>handle := Some (child ?A [])\<rparr>) ''Content-Length:'' [] =
     Inr (False, ''Content-Le'', session [] [])"
    by (simp add: run_simps)
  have b1: "read_until ((session ?B [True])\<lparr>handle := Some (child ?B [])\<rparr>) ''Content-Length:'' [] =
     Inr (True, ''Content-Length:'', session (byte_by_byte (''4'' @ [CR, LF])) [])"
    by (simp add: run_simps)
  have b2: "read_until (session (byte_by_byte (''4'' @ [CR, LF])) []) [CR, LF, CR, LF] [] =
     Inr (False, ''4'' @ [CR, LF], session [] [])"
    by (simp add: run_simps)
  have c1: "read_until ((session ?C [True])\<lparr>handle := Some (child ?C [])\<rparr>) ''Content-Length:'' [] =
     Inr (True, ''Content-Length:'', session (byte_by_byte (''4'' @ [CR, LF, CR, LF] @ ''12'')) [])"
    by (simp add: run_simps)
  have c2: "read_until (session (byte_by_byte (''4'' @ [CR, LF, CR, LF] @ ''12'')) []) [CR, LF, CR, LF] [] =
     Inr (True, ''4'' @ [CR, LF, CR, LF], session (byte_by_byte ''12'') [])"
    by (simp add: run_simps)
  have n: "size_t_of_long (strtol (c_str (''4'' @ [CR, LF, CR, LF]))) = 4"
    by (simp add: run_simps)
  have c3: "msg_buffer scalars 4 = Some 5" by (simp add: run_simps)
  have c4: "read_payload (session (byte_by_byte ''12'') []) (Some 5) 4 4 [] =
     Inr (''12'', (session [] [])\<lparr>done' := True\<rparr>)"
    by (simp add: run_simps)
  have c4': "read_payload (session (byte_by_byte ''12'') [])
      (msg_buffer scalars (size_t_of_long (strtol (c_str (''4'' @ [CR, LF, CR, LF])))))
      (size_t_of_long (strtol (c_str (''4'' @ [CR, LF, CR, LF]))))
      (size_t_of_long (strtol (c_str (''4'' @ [CR, LF, CR, LF])))) [] =
     Inr (''12'', (session [] [])\<lparr>done' := True\<rparr>)"
    unfolding n c3 by (rule c4)
  have c5: "done' ((session [] [])\<lparr>done' := True\<rparr>)" by simp
  have A: "handler_calls (Fjson_rpc scalars returning True [] (session ?A [True])) =
      Some [end_of_session]"
    using premature_end_terminates_without_delivery[
        where lib = scalars and callback = returning and locked = True
          and param = "session ?A [True]",
        OF session_handle(2) session_handle(1) child_alive args] a1
    by blast
  have B: "handler_calls (Fjson_rpc scalars returning True [] (session ?B [True])) =
      Some [end_of_session]"
    using premature_end_terminates_without_delivery[
        where lib = scalars and callback = returning and locked = True
          and param = "session ?B [True]",
        OF session_handle(2) session_handle(1) child_alive args] b1 b2
    by blast
  have C: "handler_calls (Fjson_rpc scalars returning True [] (session ?C [True])) =
      Some [end_of_session]"
    using premature_end_terminates_without_delivery[
        where lib = scalars and callback = returning and locked = True
          and param = "session ?C [True]",
        OF session_handle(2) session_handle(1) child_alive args] c1 c2 c4' c5
    by blast
  from a1[unfolded session_handle(3)] b1[unfolded session_handle(3)] b2
    c1[unfolded session_handle(3)] c2 n c3 c4 A B C
  show ?thesis by blast
qed

section \<open>The send path\<close>

lemma json_rpc_send_callback_locked:
  assumes "handle state = Some h"
  shows "json_rpc_send_callback json_dumps True bytes_sent state m =
     (let msg = frame (json_dumps m); bytes_to_send = int_of_size_t (strlen msg)
      in if \<not> bytes_sent \<le> bytes_to_send then Inl Assertion_failed
         else Inr (if bytes_sent = bytes_to_send then 0 else - 1,
                   state\<lparr>handle := Some (h\<lparr>sent := sent h @ [take (nat bytes_to_send) msg]\<rparr>)\<rparr>))"
  using assms
  by (simp add: json_rpc_send_callback_def can_use_handle_def end_using_handle_def ssp_send_def
      Let_def)

lemma json_rpc_send_callback_not_locked:
  "json_rpc_send_callback json_dumps False bytes_sent state m = Inr (- 1, state)"
  by (simp add: json_rpc_send_callback_def can_use_handle_def)

lemma take_all: "take (nat (int (strlen s))) s = s" "take (strlen s) s = s"
  by (simp_all add: strlen_def)

lemma frame_ping: "frame ping = ''Content-Length: 24'' @ [CR, LF, CR, LF] @ ping"
  by (simp add: frame_def ping_def strlen_def)

lemma strlen_frame_ping: "strlen (frame ping) = 46"
  unfolding frame_ping by (simp add: strlen_def ping_def)

lemma int_of_size_t_46: "int_of_size_t 46 = 46"
  by (simp add: int_of_size_t_def)

lemma sender_handle: "handle sender = Some (child [] [True])"
  by (simp add: sender_def json_rpc_connection_state_def)

lemma send_ping:
  "json_rpc_send_callback (\<lambda>t. t) True bytes_sent sender ping =
     (if \<not> bytes_sent \<le> 46 then Inl Assertion_failed
      else Inr (if bytes_sent = 46 then 0 else - 1,
                sender\<lparr>handle := Some ((child [] [True])\<lparr>sent := [frame ping]\<rparr>)\<rparr>))"
proof -
  have "take (nat (int_of_size_t (strlen (frame ping)))) (frame ping) = frame ping"
    using strlen_frame_ping by (simp add: int_of_size_t_46 strlen_def)
  then show ?thesis
    by (simp add: json_rpc_send_callback_locked[OF sender_handle] Let_def strlen_frame_ping
        int_of_size_t_46 child_def)
qed

text \<open>
  Claim C1, as the code has it.  When the 5 ms timed lock succeeds and the handle is
  there, \<^verbatim>\<open>json_rpc_send_callback\<close> makes one call of \<^verbatim>\<open>send\<close>; for a frame that an \<^verbatim>\<open>int\<close> can
  count, the buffer of that call is the header \<^verbatim>\<open>Content-Length: N\<close>, the blank line and the
  compact serialization, with \<open>N\<close> the decimal length of the serialization in bytes, and
  the result is 0 exactly when \<^verbatim>\<open>send\<close> took all of it.  When the lock is not obtained
  nothing is sent.  For \<^verbatim>\<open>{"id":1,"method":"ping"}\<close> the header says 24.
\<close>

theorem send_path_frames_the_serialization:
  assumes "handle state = Some h"
    and "strlen (frame (json_dumps m)) \<le> INT_MAX"
    and "bytes_sent \<le> int (strlen (frame (json_dumps m)))"
  shows "json_rpc_send_callback json_dumps True bytes_sent state m =
           Inr (if bytes_sent = int (strlen (frame (json_dumps m))) then 0 else - 1,
                state\<lparr>handle := Some (h\<lparr>sent := sent h @ [frame (json_dumps m)]\<rparr>)\<rparr>) \<and>
         frame (json_dumps m) =
           ''Content-Length: '' @ decimal (length (json_dumps m)) @ [CR, LF, CR, LF] @ json_dumps m \<and>
         json_rpc_send_callback json_dumps False bytes_sent state m = Inr (- 1, state) \<and>
         frame ping = ''Content-Length: 24'' @ [CR, LF, CR, LF] @ ping"
proof -
  have n: "int_of_size_t (strlen (frame (json_dumps m))) = int (strlen (frame (json_dumps m)))"
    using assms(2) by (rule int_of_size_t_small)
  have "json_rpc_send_callback json_dumps True bytes_sent state m =
           Inr (if bytes_sent = int (strlen (frame (json_dumps m))) then 0 else - 1,
                state\<lparr>handle := Some (h\<lparr>sent := sent h @ [frame (json_dumps m)]\<rparr>)\<rparr>)"
    using assms(3) by (simp add: json_rpc_send_callback_locked[OF assms(1)] n Let_def take_all)
  moreover have "frame (json_dumps m) =
      ''Content-Length: '' @ decimal (length (json_dumps m)) @ [CR, LF, CR, LF] @ json_dumps m"
    by (simp add: frame_def strlen_def)
  ultimately show ?thesis
    by (simp add: json_rpc_send_callback_not_locked frame_ping)
qed

theorem send_path_frames_the_serialization_witness:
  "handle sender = Some (child [] [True]) \<and>
   strlen (frame ping) \<le> INT_MAX \<and>
   (46 :: int) \<le> int (strlen (frame ping)) \<and>
   json_rpc_send_callback (\<lambda>t. t) True 46 sender ping =
     Inr (0, sender\<lparr>handle := Some ((child [] [True])\<lparr>sent :=
                [''Content-Length: 24'' @ [CR, LF, CR, LF] @ ping]\<rparr>)\<rparr>)"
proof (intro conjI)
  show h: "handle sender = Some (child [] [True])" by (rule sender_handle)
  show a: "strlen (frame ping) \<le> INT_MAX"
    by (simp add: strlen_frame_ping INT_MAX_def)
  show b: "(46 :: int) \<le> int (strlen (frame ping))"
    by (simp add: strlen_frame_ping)
  note main = send_path_frames_the_serialization[where json_dumps = "\<lambda>t. t" and m = ping,
      OF h a b, THEN conjunct1]
  have "sent (child [] [True]) = []" by (simp add: child_def)
  with main show "json_rpc_send_callback (\<lambda>t. t) True 46 sender ping =
     Inr (0, sender\<lparr>handle := Some ((child [] [True])\<lparr>sent :=
                [''Content-Length: 24'' @ [CR, LF, CR, LF] @ ping]\<rparr>)\<rparr>)"
    unfolding frame_ping[symmetric] by (simp add: strlen_frame_ping)
qed

text \<open>
  Claim C1, as stated, fails on its own example: the compact serialization
  \<^verbatim>\<open>{"id":1,"method":"ping"}\<close> has 24 bytes, and the one buffer that is sent says so; it is not
  the buffer with the header \<^verbatim>\<open>Content-Length: 26\<close>.
\<close>

theorem ping_is_framed_with_length_24:
  "length ping = 24 \<and>
   json_rpc_send_callback (\<lambda>t. t) True 46 sender ping =
     Inr (0, sender\<lparr>handle := Some ((child [] [True])\<lparr>sent :=
                [''Content-Length: 24'' @ [CR, LF, CR, LF] @ ping]\<rparr>)\<rparr>) \<and>
   ''Content-Length: 24'' @ [CR, LF, CR, LF] @ ping \<noteq> ''Content-Length: 26'' @ [CR, LF, CR, LF] @ ping"
proof -
  have "length ping = 24" by (simp add: ping_def)
  moreover have "json_rpc_send_callback (\<lambda>t. t) True 46 sender ping =
     Inr (0, sender\<lparr>handle := Some ((child [] [True])\<lparr>sent :=
                [''Content-Length: 24'' @ [CR, LF, CR, LF] @ ping]\<rparr>)\<rparr>)"
    by (simp add: send_ping frame_ping)
  ultimately show ?thesis by simp
qed

text \<open>
  Claim C7.  The keyword arguments and the message are accepted, the lock is obtained and
  the handle is there, and \<^verbatim>\<open>send\<close> reports fewer bytes than it was given (or an error, a
  negative count).  Then \<^verbatim>\<open>json-rpc-send\<close> signals \<open>error\<close> with the message
  \<^verbatim>\<open>Failed to send message\<close>.  The state it leaves differs from the one it found only in
  the handle's log of \<^verbatim>\<open>send\<close> calls, which is one call longer: nothing was sent again,
  \<open>done\<close> is as it was, the handle is still there, and what the child has still to say is
  untouched, so the dispatch loop goes on as before.
\<close>

theorem short_write_is_a_send_failure:
  assumes "json_parse_args args default_configuration False = Inr conf"
    and "lisp_to_json lisp conf = Inr m"
    and "handle state = Some h"
    and "bytes_sent < int_of_size_t (strlen (frame (json_dumps m)))"
  shows "Fjson_rpc_send lisp_to_json json_dumps True bytes_sent args lisp state =
     Inr (Signalled (Signal Qerror (Flist [String ''Failed to send message''])),
          state\<lparr>handle := Some (h\<lparr>sent := sent h @
             [take (nat (int_of_size_t (strlen (frame (json_dumps m))))) (frame (json_dumps m))]\<rparr>)\<rparr>)"
  using assms
  by (simp add: Fjson_rpc_send_def json_rpc_send_callback_locked[OF assms(3)] Let_def)

theorem short_write_is_a_send_failure_witness:
  "json_parse_args [] default_configuration False = Inr default_configuration \<and>
   handle sender = Some (child [] [True]) \<and>
   (10 :: int) < int_of_size_t (strlen (frame ping)) \<and>
   Fjson_rpc_send (\<lambda>lisp conf. Inr ping) (\<lambda>t. t) True 10 [] Qnil sender =
     Inr (Signalled (Signal Qerror (Flist [String ''Failed to send message''])),
          sender\<lparr>handle := Some ((child [] [True])\<lparr>sent :=
              [''Content-Length: 24'' @ [CR, LF, CR, LF] @ ping]\<rparr>)\<rparr>)"
proof (intro conjI)
  show a: "json_parse_args [] default_configuration False = Inr default_configuration"
    by (rule json_parse_args_nil)
  show h: "handle sender = Some (child [] [True])" by (rule sender_handle)
  have b: "(\<lambda>lisp conf. Inr ping) Qnil default_configuration = (Inr ping :: lisp_error + string)"
    by simp
  show c: "(10 :: int) < int_of_size_t (strlen (frame ping))"
    by (simp add: strlen_frame_ping int_of_size_t_46)
  have t: "take 46 (frame ping) = frame ping"
    using strlen_frame_ping by (simp add: strlen_def)
  note main = short_write_is_a_send_failure[where json_dumps = "\<lambda>t. t" and m = ping
      and lisp_to_json = "\<lambda>lisp conf. Inr ping" and lisp = Qnil, OF a b h c]
  have "sent (child [] [True]) = []" by (simp add: child_def)
  with main show "Fjson_rpc_send (\<lambda>lisp conf. Inr ping) (\<lambda>t. t) True 10 [] Qnil sender =
     Inr (Signalled (Signal Qerror (Flist [String ''Failed to send message''])),
          sender\<lparr>handle := Some ((child [] [True])\<lparr>sent :=
              [''Content-Length: 24'' @ [CR, LF, CR, LF] @ ping]\<rparr>)\<rparr>)"
    unfolding frame_ping[symmetric] by (simp add: strlen_frame_ping int_of_size_t_46 t)
qed

section \<open>The diagnostic buffer\<close>

lemma capture_stderr_fill:
  assumes "capture_stderr p err = Inr p'"
    and "error_buffer_read p < ERROR_BUFFER_SIZE"
    and "length err \<le> ERROR_BUFFER_SIZE - error_buffer_read p"
  shows "error_buffer_read p' < ERROR_BUFFER_SIZE"
  using assms
  by (auto simp: capture_stderr_def Let_def ERROR_BUFFER_SIZE_def split: if_splits option.splits)

lemma read_stdout_fill:
  "read_stdout p n = Inr (bs, p') \<Longrightarrow> error_buffer_read p < ERROR_BUFFER_SIZE \<Longrightarrow>
   error_buffer_read p' < ERROR_BUFFER_SIZE"
proof (induction p n arbitrary: bs p' rule: read_stdout.induct)
  case (1 param size')
  from "1.prems" obtain h where h: "handle param = Some h"
    by (cases "handle param") (auto simp: read_stdout_null)
  obtain r h1 where rh: "ssp_recv h size' (ERROR_BUFFER_SIZE - error_buffer_read param) = (r, h1)"
    by (cases "ssp_recv h size' (ERROR_BUFFER_SIZE - error_buffer_read param)")
  note unf = read_stdout_unfold[OF h rh]
  from "1.prems" obtain p1 where
    p1: "capture_stderr (param\<lparr>handle := Some h1\<rparr>) (rr_err r) = Inr p1"
    by (auto simp: unf split: sum.splits)
  have f1: "error_buffer_read p1 < ERROR_BUFFER_SIZE"
    using capture_stderr_fill[OF p1] ssp_recv_facts[OF rh] "1.prems"(2) by simp
  obtain alive h2 where al: "ssp_isalive h1 = (alive, h2)" by (cases "ssp_isalive h1")
  show ?case
  proof (cases "rr_out r \<noteq> []")
    case True
    with "1.prems" p1 have "p' = p1" by (simp add: unf)
    with f1 show ?thesis by simp
  next
    case out: False
    show ?thesis
    proof (cases "0 < rr_res r")
      case True
      with "1.prems" p1 out have "read_stdout p1 size' = Inr (bs, p')" by (simp add: unf)
      from "1.IH"(1)[OF h refl rh[symmetric] refl p1 out True this f1] show ?thesis .
    next
      case res: False
      show ?thesis
      proof (cases alive)
        case True
        with "1.prems" p1 out res al
        have "read_stdout (p1\<lparr>handle := Some h2\<rparr>) size' = Inr (bs, p')" by (simp add: unf)
        from "1.IH"(2)[OF h refl rh[symmetric] refl p1 out res al[symmetric] refl True this] f1
        show ?thesis by simp
      next
        case False
        with "1.prems" p1 out res al have "p' = p1\<lparr>handle := Some h2\<rparr>" by (simp add: unf)
        with f1 show ?thesis by simp
      qed
    qed
  qed
qed

text \<open>
  What the overflow branch does to a buffer that holds \<open>k\<close> bytes, a NUL byte and \<open>k - 1\<close>
  more bytes before its last byte: \<^verbatim>\<open>strcpy\<close> copies the empty string.
\<close>

lemma strcpy_to_start_nul:
  assumes "0 < k"
  shows "strcpy_to_start (replicate k a @ NUL # replicate (k - 1) b @ [NUL]) k =
           Some (NUL # replicate (k - 1) a @ NUL # replicate (k - 1) b @ [NUL])"
proof -
  from assms obtain j where j: "k = Suc j" by (cases k) auto
  show ?thesis
    by (simp add: strcpy_to_start_def c_str_def Let_def j)
qed

lemma half_pos: "0 < half" "half + half = ERROR_BUFFER_SIZE"
  by (simp_all add: half_def ERROR_BUFFER_SIZE_def)

lemma length_noisy: "length noisy_stderr = ERROR_BUFFER_SIZE"
  using half_pos by (simp add: noisy_stderr_def)

lemma drop_replicate_last: "drop n (replicate (n + 1) x) = [x]"
  unfolding drop_replicate by simp

lemma session_buffer:
  "error_buffer (session rs as) = replicate (ERROR_BUFFER_SIZE + 1) NUL"
  "error_buffer_read (session rs as) = 0"
  by (simp_all add: session_def json_rpc_connection_state_def zeroed_memory_def)

lemma capture_stderr_overflow:
  assumes "err \<noteq> []" "error_buffer_read p + length err = ERROR_BUFFER_SIZE"
    "strcpy_to_start (write_at (error_buffer p) (error_buffer_read p) err)
       (ERROR_BUFFER_SIZE div 2) = Some buf'"
  shows "capture_stderr p err =
           Inr (p\<lparr>error_buffer := buf', error_buffer_read := ERROR_BUFFER_SIZE div 2\<rparr>)"
  using assms by (simp add: capture_stderr_def Let_def)

lemma capture_noisy:
  "capture_stderr (session rs as) noisy_stderr =
     Inr ((session rs as)\<lparr>error_buffer :=
             NUL # replicate (half - 1) (CHR ''A'') @ NUL # replicate (half - 1) (CHR ''B'') @ [NUL],
           error_buffer_read := half\<rparr>)"
proof -
  note eb = session_buffer[of rs as]
  have w: "write_at (replicate (ERROR_BUFFER_SIZE + 1) NUL) 0 noisy_stderr =
      replicate half (CHR ''A'') @ NUL # replicate (half - 1) (CHR ''B'') @ [NUL]"
    unfolding write_at_def length_noisy take_0 add_0 drop_replicate_last
    by (simp add: noisy_stderr_def)
  have ne: "noisy_stderr \<noteq> []" by (simp add: noisy_stderr_def)
  have sum: "error_buffer_read (session rs as) + length noisy_stderr = ERROR_BUFFER_SIZE"
    unfolding eb length_noisy by simp
  have s: "strcpy_to_start
      (write_at (error_buffer (session rs as)) (error_buffer_read (session rs as)) noisy_stderr)
      (ERROR_BUFFER_SIZE div 2) =
      Some (NUL # replicate (half - 1) (CHR ''A'') @ NUL # replicate (half - 1) (CHR ''B'') @ [NUL])"
    unfolding eb w half_def[symmetric] by (rule strcpy_to_start_nul[OF half_pos(1)])
  show ?thesis
    unfolding half_def by (rule capture_stderr_overflow[OF ne sum s, unfolded half_def])
qed

text \<open>
  Claim C6 fails on this input.  A fresh session whose buffer memory is zero gets, in one
  \<^verbatim>\<open>recv\<close>, a stdout byte and as many diagnostic bytes as the buffer holds; the newer half of
  them starts with a NUL byte.  \<^verbatim>\<open>read_stdout\<close> sets the fill level to the midpoint, but
  \<^verbatim>\<open>strcpy\<close> stops at the NUL: apart from its first byte the retained half is the older
  half, and \<^verbatim>\<open>json-rpc-stderr\<close> returns that, not the most recently written half.
\<close>

theorem stderr_overflow_keeps_the_older_half:
  "read_stdout (session [\<lparr>rr_res = 1, rr_out = ''x'', rr_err = noisy_stderr\<rparr>] []) 1 =
     Inr (''x'',
          (session [] [])\<lparr>error_buffer :=
              NUL # replicate (half - 1) (CHR ''A'') @ NUL # replicate (half - 1) (CHR ''B'') @ [NUL],
            error_buffer_read := half\<rparr>) \<and>
   Fjson_rpc_stderr
     ((session [] [])\<lparr>error_buffer :=
         NUL # replicate (half - 1) (CHR ''A'') @ NUL # replicate (half - 1) (CHR ''B'') @ [NUL],
       error_buffer_read := half\<rparr> :: json_t json_rpc_state) =
     String (NUL # replicate (half - 1) (CHR ''A'')) \<and>
   drop (length noisy_stderr - half) noisy_stderr = NUL # replicate (half - 1) (CHR ''B'') \<and>
   NUL # replicate (half - 1) (CHR ''A'') \<noteq> NUL # replicate (half - 1) (CHR ''B'')"
proof (intro conjI)
  let ?r = "\<lparr>rr_res = 1, rr_out = ''x'', rr_err = noisy_stderr\<rparr>"
  have h: "handle (session [?r] []) = Some (child [?r] [])" by (rule session_handle)
  note eb = session_buffer(2)[of "[?r]" "[]"]
  have rc: "ssp_recv (child [?r] []) 1 (ERROR_BUFFER_SIZE - error_buffer_read (session [?r] [])) =
      (?r, child [] [])"
    unfolding eb by (simp add: ssp_recv_def child_def length_noisy)
  show "read_stdout (session [?r] []) 1 =
     Inr (''x'',
          (session [] [])\<lparr>error_buffer :=
              NUL # replicate (half - 1) (CHR ''A'') @ NUL # replicate (half - 1) (CHR ''B'') @ [NUL],
            error_buffer_read := half\<rparr>)"
    unfolding read_stdout_unfold[OF h rc] session_handle(3) by (simp add: capture_noisy)
  have "0 < half" by (rule half_pos)
  then obtain j where j: "half = Suc j" by (cases half) auto
  show "Fjson_rpc_stderr
     ((session [] [])\<lparr>error_buffer :=
         NUL # replicate (half - 1) (CHR ''A'') @ NUL # replicate (half - 1) (CHR ''B'') @ [NUL],
       error_buffer_read := half\<rparr> :: json_t json_rpc_state) =
     String (NUL # replicate (half - 1) (CHR ''A''))"
    by (simp add: Fjson_rpc_stderr_def j)
  show "drop (length noisy_stderr - half) noisy_stderr = NUL # replicate (half - 1) (CHR ''B'')"
    using half_pos by (simp add: length_noisy) (simp add: noisy_stderr_def)
  show "NUL # replicate (half - 1) (CHR ''A'') \<noteq> NUL # replicate (half - 1) (CHR ''B'')"
    by (simp add: half_def ERROR_BUFFER_SIZE_def)
qed

end
